theory Spec2Isabelle
  imports Main
begin

section \<open>Python values: errors, strings and integers\<close>

text \<open>
  The program is \<^verbatim>\<open>package_llvm.py\<close>. Every exception the modelled code can raise
  is a value: \<^verbatim>\<open>sys.exit(msg)\<close> raises \<open>SystemExit msg\<close>, and \<^verbatim>\<open>int(...)\<close> and the
  comparison methods of \<^verbatim>\<open>Version\<close> raise \<open>ValueError\<close>. A function that can raise
  returns \<open>error + 'a\<close>, with \<open>Inl\<close> for the exception.
\<close>

datatype error = SystemExit string | ValueError string

text \<open>
  \<^verbatim>\<open>s.split(sep)\<close> for a one-character separator: the result is never empty, and two
  adjacent separators give an empty component.
\<close>

fun split_str :: "char \<Rightarrow> string \<Rightarrow> string list" where
  "split_str sep [] = [[]]"
| "split_str sep (c # cs) =
     (if c = sep then [] # split_str sep cs
      else (case split_str sep cs of
              w # ws \<Rightarrow> (c # w) # ws
            | [] \<Rightarrow> [[c]]))"

text \<open>\<^verbatim>\<open>sep.join(parts)\<close>.\<close>

fun join_str :: "string \<Rightarrow> string list \<Rightarrow> string" where
  "join_str sep [] = []"
| "join_str sep [x] = x"
| "join_str sep (x # y # ys) = x @ sep @ join_str sep (y # ys)"

text \<open>
  Decimal digits. Strings are byte strings here, so only the ASCII digits and the
  ASCII white space of Python's \<^verbatim>\<open>str\<close> are covered; Python integers are unbounded
  (the interpreter's optional limit on the number of digits of a conversion is not
  modelled).
\<close>

definition is_digit :: "char \<Rightarrow> bool" where
  "is_digit c = (c \<in> set ''0123456789'')"

definition digit_val :: "char \<Rightarrow> nat" where
  "digit_val c = of_char c - 48"

definition digit_char :: "nat \<Rightarrow> char" where
  "digit_char d = ''0123456789'' ! d"

definition digits_val :: "string \<Rightarrow> nat" where
  "digits_val s = foldl (\<lambda>a c. 10 * a + digit_val c) 0 s"

text \<open>\<^verbatim>\<open>str(n)\<close> for an integer.\<close>

fun str_nat :: "nat \<Rightarrow> string" where
  "str_nat n = (if n < 10 then [digit_char n] else str_nat (n div 10) @ [digit_char (n mod 10)])"

declare str_nat.simps [simp del]

definition str_int :: "int \<Rightarrow> string" where
  "str_int i = (if i < 0 then CHR ''-'' # str_nat (nat (- i)) else str_nat (nat i))"

text \<open>
  \<^verbatim>\<open>int(s)\<close> in base 10: white space around the literal is dropped, one sign is
  allowed, and single underscores may separate groups of digits. Anything else raises
  \<open>ValueError\<close>; its message quotes the literal (\<open>py_repr\<close> writes the quotes of
  \<^verbatim>\<open>repr\<close> for a string that needs no escape).
\<close>

definition is_space :: "char \<Rightarrow> bool" where
  "is_space c = (c \<in> set [CHR 0x09, CHR 0x0A, CHR 0x0B, CHR 0x0C, CHR 0x0D,
                            CHR 0x1C, CHR 0x1D, CHR 0x1E, CHR 0x1F, CHR 0x20])"

definition strip :: "string \<Rightarrow> string" where
  "strip s = rev (dropWhile is_space (rev (dropWhile is_space s)))"

definition numeric :: "string \<Rightarrow> bool" where
  "numeric s = (s \<noteq> [] \<and> list_all is_digit s)"

definition py_repr :: "string \<Rightarrow> string" where
  "py_repr s = [CHR 0x27] @ s @ [CHR 0x27]"

definition py_int :: "string \<Rightarrow> error + int" where
  "py_int s =
     (let t = strip s;
          neg = (t \<noteq> [] \<and> hd t = CHR ''-'');
          body = (if t \<noteq> [] \<and> (hd t = CHR ''-'' \<or> hd t = CHR ''+'') then tl t else t);
          groups = split_str CHR ''_'' body
      in if list_all numeric groups
         then Inr ((if neg then - 1 else 1) * int (digits_val (concat groups)))
         else Inl (ValueError (''invalid literal for int() with base 10: '' @ py_repr s)))"


section \<open>Version\<close>

text \<open>
  The class \<^verbatim>\<open>Version\<close>: three integer attributes, set by \<^verbatim>\<open>__init__\<close> from a dotted
  string.
\<close>

record Version =
  major :: int
  minor :: int
  patch :: int

text \<open>
  \<^verbatim>\<open>__init__\<close>: the first component is always read; the second and the third are
  read when the split has them, and are 0 otherwise. Components past the third are
  never looked at. The conversions run in the order major, minor, patch, and the
  first one that fails raises.
\<close>

definition Version_init :: "string \<Rightarrow> error + Version" where
  "Version_init version =
     (let split_version = split_str CHR ''.'' version in
      case py_int (split_version ! 0) of
        Inl e \<Rightarrow> Inl e
      | Inr ma \<Rightarrow>
          (case (if length split_version > 1 then py_int (split_version ! 1) else Inr 0) of
             Inl e \<Rightarrow> Inl e
           | Inr mi \<Rightarrow>
               (case (if length split_version > 2 then py_int (split_version ! 2) else Inr 0) of
                  Inl e \<Rightarrow> Inl e
                | Inr pa \<Rightarrow> Inr \<lparr>major = ma, minor = mi, patch = pa\<rparr>)))"

text \<open>
  The values a \<^verbatim>\<open>Version\<close> can be compared with: another \<^verbatim>\<open>Version\<close>, or an object
  of another type, for which \<^verbatim>\<open>isinstance(other, Version)\<close> is false.
\<close>

datatype py_value = VersionObj Version | IntObj int | StrObj string | NoneObj








definition Version_repr :: "Version \<Rightarrow> string" where
  "Version_repr self = join_str ''.'' [str_int (major self), str_int (minor self), str_int (patch self)]"

text \<open>\<^verbatim>\<open>str(Version(s))\<close>: parse, then format.\<close>

definition Version_str :: "string \<Rightarrow> error + string" where
  "Version_str s = (case Version_init s of Inl e \<Rightarrow> Inl e | Inr v \<Rightarrow> Inr (Version_repr v))"

text \<open>
  A component is canonical when it is the decimal numeral Python prints: digits only,
  with no leading zero unless it is \<open>0\<close> itself.
\<close>

definition canonical :: "string \<Rightarrow> bool" where
  "canonical s = (numeric s \<and> (s = ''0'' \<or> hd s \<noteq> CHR ''0''))"


section \<open>The world: standard output, sleeping, and an environment\<close>

text \<open>
  What the program does to the outside is recorded in order: a line printed, or a call
  of \<^verbatim>\<open>time.sleep\<close>. The field \<open>env\<close> holds whatever else an operation acts on
  (for the upload, the remote repository).
\<close>

datatype event = Print string | Sleep nat

record 'e world =
  events :: "event list"
  env :: 'e

definition py_print :: "string \<Rightarrow> 'e world \<Rightarrow> 'e world" where
  "py_print s w = w\<lparr>events := events w @ [Print s]\<rparr>"

definition time_sleep :: "nat \<Rightarrow> 'e world \<Rightarrow> 'e world" where
  "time_sleep n w = w\<lparr>events := events w @ [Sleep n]\<rparr>"


section \<open>Retries\<close>

definition RETRY_INTERVAL :: nat where
  "RETRY_INTERVAL = 10"

text \<open>
  The loop of \<^verbatim>\<open>Retries\<close>. Only \<open>SystemExit\<close> is caught; any other exception leaves
  the loop at once. The \<^verbatim>\<open>sys.exit\<close> in the handler is raised outside the
  \<^verbatim>\<open>try\<close> body, so it leaves the function. The loop ends because \<open>nb_retries\<close> grows
  with every caught failure and the handler exits once it is above \<open>max_retries\<close>.
\<close>

function Retries_loop ::
  "('e world \<Rightarrow> (error + 'a) \<times> 'e world) \<Rightarrow> nat \<Rightarrow> nat \<Rightarrow> 'e world \<Rightarrow> (error + bool) \<times> 'e world"
where
  "Retries_loop func max_retries nb_retries w =
     (case func w of
        (Inr _, w1) \<Rightarrow> (Inr True, w1)
      | (Inl (SystemExit msg), w1) \<Rightarrow>
          (let nb = nb_retries + 1;
               w2 = py_print (''ERROR: '' @ msg @ '' Retry '' @ str_nat nb @ ''. '') w1
           in if nb > max_retries
              then (Inl (SystemExit (''Number of retries exceeded ('' @ str_nat max_retries
                                      @ ''). Aborting.'')), w2)
              else Retries_loop func max_retries nb (time_sleep RETRY_INTERVAL w2))
      | (Inl e, w1) \<Rightarrow> (Inl e, w1))"
  by pat_completeness auto
termination
  by (relation "measure (\<lambda>(func, max_retries, nb_retries, w). Suc max_retries - nb_retries)") auto

declare Retries_loop.simps [simp del]

definition Retries ::
  "('e world \<Rightarrow> (error + 'a) \<times> 'e world) \<Rightarrow> 'e world \<Rightarrow> (error + bool) \<times> 'e world" where
  "Retries func w = Retries_loop func 3 0 w"

text \<open>
  A probe for counting calls: \<open>counting func\<close> behaves as \<open>func\<close> and adds one to a
  counter kept beside the environment each time it is called.
\<close>

definition counting ::
  "('e world \<Rightarrow> 'r \<times> 'e world) \<Rightarrow> ('e \<times> nat) world \<Rightarrow> 'r \<times> ('e \<times> nat) world" where
  "counting func w =
     (case func \<lparr>events = events w, env = fst (env w)\<rparr> of
        (r, w') \<Rightarrow> (r, \<lparr>events = events w', env = (env w', Suc (snd (env w)))\<rparr>))"

text \<open>\<open>contains needle s\<close>: \<^verbatim>\<open>needle in s\<close> for strings.\<close>

fun contains :: "string \<Rightarrow> string \<Rightarrow> bool" where
  "contains needle [] = (needle = [])"
| "contains needle (c # cs) = (take (length needle) (c # cs) = needle \<or> contains needle cs)"


section \<open>Reading the output of the external tools\<close>

text \<open>
  \<^verbatim>\<open>str.splitlines()\<close> on the ASCII line boundaries; \<^verbatim>\<open>\r\n\<close> is one boundary, and
  a final boundary does not start another line.
\<close>

definition is_linebreak :: "char \<Rightarrow> bool" where
  "is_linebreak c = (c \<in> set [CHR 0x0A, CHR 0x0B, CHR 0x0C, CHR 0x0D, CHR 0x1C, CHR 0x1D, CHR 0x1E])"

fun splitlines_acc :: "string \<Rightarrow> string \<Rightarrow> string list" where
  "splitlines_acc acc [] = (if acc = [] then [] else [rev acc])"
| "splitlines_acc acc [c] = (if is_linebreak c then [rev acc] else [rev (c # acc)])"
| "splitlines_acc acc (c # d # cs) =
     (if c = CHR 0x0D \<and> d = CHR 0x0A then rev acc # splitlines_acc [] cs
      else if is_linebreak c then rev acc # splitlines_acc [] (d # cs)
      else splitlines_acc (c # acc) (d # cs))"

definition splitlines :: "string \<Rightarrow> string list" where
  "splitlines s = splitlines_acc [] s"

definition starts_with :: "string \<Rightarrow> string \<Rightarrow> bool" where
  "starts_with p s = (take (length p) s = p)"

text \<open>
  The tail \<^verbatim>\<open>(.*)$\<close> of a pattern, matched against the rest of the string: \<^verbatim>\<open>.\<close> matches
  no newline, and \<^verbatim>\<open>$\<close> matches at the end or just before a final newline.
\<close>

definition dot_star_end :: "string \<Rightarrow> string option" where
  "dot_star_end r =
     (let body = (if r \<noteq> [] \<and> last r = CHR 0x0A then butlast r else r)
      in if CHR 0x0A \<in> set body then None else Some body)"

text \<open>
  \<^verbatim>\<open>OBJDUMP_NEEDED_REGEX.search(line)\<close>, giving the group \<^verbatim>\<open>dependency\<close>: the pattern
  is \<^verbatim>\<open>^\<close>, two spaces, \<^verbatim>\<open>NEEDED\<close>, fifteen spaces, then \<^verbatim>\<open>(.*)$\<close>.
\<close>

definition OBJDUMP_NEEDED_REGEX :: "string \<Rightarrow> string option" where
  "OBJDUMP_NEEDED_REGEX line =
     (if starts_with ''  NEEDED               '' line
      then dot_star_end (drop (length ''  NEEDED               '') line)
      else None)"

definition is_hex :: "char \<Rightarrow> bool" where
  "is_hex c = (c \<in> set ''0123456789abcdef'')"

text \<open>
  \<^verbatim>\<open>OBJDUMP_VERSION_REGEX.search(line)\<close>, giving the groups \<^verbatim>\<open>library\<close> and
  \<^verbatim>\<open>version\<close>. The pattern is \<^verbatim>\<open>^    0x[0-9a-f]+ 0x00 \d+ (.*)_(.*)$\<close>. The two
  repetitions of a character class are each followed by a space, which is in neither
  class, so they match the longest run; the first \<^verbatim>\<open>.*\<close> is greedy, so the groups are
  split at the last underscore.
\<close>

definition OBJDUMP_VERSION_REGEX :: "string \<Rightarrow> (string \<times> string) option" where
  "OBJDUMP_VERSION_REGEX line =
     (if starts_with ''    0x'' line then
        (let r1 = drop (length ''    0x'') line;
             r2 = dropWhile is_hex r1
         in if takeWhile is_hex r1 \<noteq> [] \<and> starts_with '' 0x00 '' r2 then
              (let r3 = drop (length '' 0x00 '') r2;
                   r4 = dropWhile is_digit r3
               in if takeWhile is_digit r3 \<noteq> [] \<and> starts_with '' '' r4 then
                    (case dot_star_end (drop 1 r4) of
                       None \<Rightarrow> None
                     | Some body \<Rightarrow>
                         if CHR ''_'' \<in> set body
                         then Some (rev (drop 1 (dropWhile (\<lambda>c. c \<noteq> CHR ''_'') (rev body))),
                                    rev (takeWhile (\<lambda>c. c \<noteq> CHR ''_'') (rev body)))
                         else None)
                  else None)
            else None)
      else None)"

text \<open>
  \<^verbatim>\<open>versions\<close> is a \<^verbatim>\<open>defaultdict(list)\<close>: keys in insertion order, each with
  the list of versions appended so far.
\<close>

type_synonym versions = "(string \<times> Version list) list"

fun versions_append :: "string \<Rightarrow> Version \<Rightarrow> versions \<Rightarrow> versions" where
  "versions_append k v [] = [(k, [v])]"
| "versions_append k v ((k', vs) # rest) =
     (if k' = k then (k', vs @ [v]) # rest else (k', vs) # versions_append k v rest)"

text \<open>
  The loop of \<^verbatim>\<open>CheckDependencies\<close> over the lines of the dump. Both patterns are
  tried on every line, the second whatever the first gave. A version that does not
  parse raises out of the loop.
\<close>

fun scan_lines :: "string list \<Rightarrow> string list \<Rightarrow> versions \<Rightarrow> error + (string list \<times> versions)" where
  "scan_lines [] dependencies vs = Inr (dependencies, vs)"
| "scan_lines (line # rest) dependencies vs =
     (let dependencies' = (case OBJDUMP_NEEDED_REGEX line of
                             Some d \<Rightarrow> dependencies @ [d]
                           | None \<Rightarrow> dependencies)
      in case OBJDUMP_VERSION_REGEX line of
           None \<Rightarrow> scan_lines rest dependencies' vs
         | Some (library, ver) \<Rightarrow>
             (case Version_init ver of
                Inl e \<Rightarrow> Inl e
              | Inr v \<Rightarrow> scan_lines rest dependencies' (versions_append library v vs)))"

text \<open>
  \<^verbatim>\<open>CheckDependencies(name, path, versions)\<close>, with the output of
  \<^verbatim>\<open>objdump -p path\<close> given in place of the path. It returns the updated \<open>versions\<close>
  and prints the dependencies it found.
\<close>

definition CheckDependencies ::
  "string \<Rightarrow> string \<Rightarrow> versions \<Rightarrow> 'e world \<Rightarrow> (error + versions) \<times> 'e world" where
  "CheckDependencies name output vs w =
     (case scan_lines (splitlines output) [] vs of
        Inl e \<Rightarrow> (Inl e, w)
      | Inr (dependencies, vs') \<Rightarrow>
          (Inr vs', foldl (\<lambda>w' d. py_print d w')
                      (py_print (''List of '' @ name @ '' dependencies:'') w) dependencies))"








section \<open>The remote repository\<close>

text \<open>
  A release and its assets, as the JSON of the release API shows them: the program
  reads \<^verbatim>\<open>tag_name\<close>, \<^verbatim>\<open>upload_url\<close> and \<^verbatim>\<open>assets\<close> of a release and \<^verbatim>\<open>name\<close>
  and \<^verbatim>\<open>id\<close> of an asset. The other fields are what a created release and an
  uploaded asset are given.
\<close>

record asset =
  asset_name :: string
  asset_id :: nat
  asset_data :: string

record release =
  tag_name :: string
  upload_url :: string
  assets :: "asset list"
  release_id :: nat
  release_name :: string
  release_body :: string
  prerelease :: bool

text \<open>
  The requests the program sends, with what each carries: the owner of the repository
  for the three calls on \<^verbatim>\<open>GITHUB_RELEASES_URL\<close> and \<^verbatim>\<open>GITHUB_ASSETS_URL\<close> (the repository
  is always \<^verbatim>\<open>llvm\<close>), and the upload URL for the upload. A listing carries nothing
  else; a delete carries the asset's id and the \<^verbatim>\<open>tag_name\<close> of its JSON body; the creation
  of a release carries tag, name, body and prerelease flag; an upload carries the
  \<^verbatim>\<open>name\<close> parameter and the bytes. The credentials and the content type, which are the
  same in every run, are left out.
\<close>

datatype request =
    GetReleases string
  | DeleteAsset string nat string
  | PostRelease string string string string bool
  | PostAsset string string string

text \<open>
  A response: the status code, \<^verbatim>\<open>json()['message']\<close> of an error, the list of
  releases of a listing, and \<^verbatim>\<open>json()['upload_url']\<close> of a created release. The bodies
  are taken to have the keys the program reads.
\<close>

record response =
  status_code :: nat
  message :: string
  json_releases :: "release list"
  json_upload_url :: string

text \<open>
  Modelled from the spec: the state of the remote repository behind the release API
  (section 6 of the specification), a service outside the program. It holds the
  releases, the next identifier it hands out, the requests it has received, and a
  schedule of failures: each request takes the head of \<open>faults\<close>, fails with status 500
  and the given message when the head is \<open>Some\<close>, and is served when it is \<open>None\<close> or
  the schedule is empty.
\<close>

record remote =
  releases :: "release list"
  next_id :: nat
  faults :: "string option list"
  requests :: "request list"

definition received :: "request \<Rightarrow> remote \<Rightarrow> remote" where
  "received q r = r\<lparr>requests := requests r @ [q]\<rparr>"

definition take_fault :: "remote \<Rightarrow> string option \<times> remote" where
  "take_fault r = (case faults r of [] \<Rightarrow> (None, r) | f # fs \<Rightarrow> (f, r\<lparr>faults := fs\<rparr>))"

definition error_response :: "nat \<Rightarrow> string \<Rightarrow> response" where
  "error_response c m = \<lparr>status_code = c, message = m, json_releases = [], json_upload_url = []\<rparr>"

definition ok_response :: "nat \<Rightarrow> release list \<Rightarrow> string \<Rightarrow> response" where
  "ok_response c rs u = \<lparr>status_code = c, message = [], json_releases = rs, json_upload_url = u\<rparr>"

text \<open>
  \<^verbatim>\<open>s.replace(old, new)\<close> for a non-empty \<open>old\<close>: every occurrence, left to right,
  without overlap. The counter is the number of characters of a replaced occurrence
  still to be skipped.
\<close>

fun replace_skip :: "string \<Rightarrow> string \<Rightarrow> nat \<Rightarrow> string \<Rightarrow> string" where
  "replace_skip old new k [] = []"
| "replace_skip old new (Suc k) (c # cs) = replace_skip old new k cs"
| "replace_skip old new 0 (c # cs) =
     (if starts_with old (c # cs) then new @ replace_skip old new (length old - 1) cs
      else c # replace_skip old new 0 cs)"

definition replace_str :: "string \<Rightarrow> string \<Rightarrow> string \<Rightarrow> string" where
  "replace_str old new s = replace_skip old new 0 s"

text \<open>
  Modelled from the spec: the upload endpoint reference of a release. The remote makes
  the upload URL of a release from the release's id; the URL ends with the URI template
  \<^verbatim>\<open>{?name,label}\<close>, and without the template it addresses the release's upload endpoint.
\<close>

definition upload_url_of :: "nat \<Rightarrow> string" where
  "upload_url_of n = ''https://uploads.github.com/releases/'' @ str_nat n @ ''/assets{?name,label}''"

definition endpoint :: "string \<Rightarrow> string" where
  "endpoint u = replace_str ''{?name,label}'' [] u"

text \<open>
  Modelled from the spec: listing the releases of the project. It answers 200 with the
  releases.
\<close>

definition requests_get :: "string \<Rightarrow> remote \<Rightarrow> response \<times> remote" where
  "requests_get owner r =
     (case take_fault (received (GetReleases owner) r) of
        (Some m, r') \<Rightarrow> (error_response 500 m, r')
      | (None, r') \<Rightarrow> (ok_response 200 (releases r') [], r'))"

text \<open>
  Modelled from the spec: deleting an asset by id. It removes the asset and answers 204
  (no content), or answers 404 when no asset has the id.
\<close>

definition without_asset :: "nat \<Rightarrow> release \<Rightarrow> release" where
  "without_asset aid x = x\<lparr>assets := filter (\<lambda>b. asset_id b \<noteq> aid) (assets x)\<rparr>"

definition requests_delete :: "string \<Rightarrow> nat \<Rightarrow> string \<Rightarrow> remote \<Rightarrow> response \<times> remote" where
  "requests_delete owner aid tag r =
     (case take_fault (received (DeleteAsset owner aid tag) r) of
        (Some m, r') \<Rightarrow> (error_response 500 m, r')
      | (None, r') \<Rightarrow>
          if list_ex (\<lambda>x. list_ex (\<lambda>b. asset_id b = aid) (assets x)) (releases r')
          then (ok_response 204 [] [], r'\<lparr>releases := map (without_asset aid) (releases r')\<rparr>)
          else (error_response 404 ''Not Found'', r'))"

text \<open>
  Modelled from the spec: creating a release. It appends a release with the given tag,
  name, body and prerelease flag, a fresh id, the upload URL made from the id and no
  assets, and answers 201 (created) with that URL.
\<close>

definition requests_post_release ::
  "string \<Rightarrow> string \<Rightarrow> string \<Rightarrow> string \<Rightarrow> bool \<Rightarrow> remote \<Rightarrow> response \<times> remote" where
  "requests_post_release owner tag nm body pre r =
     (case take_fault (received (PostRelease owner tag nm body pre) r) of
        (Some m, r') \<Rightarrow> (error_response 500 m, r')
      | (None, r') \<Rightarrow>
          (ok_response 201 [] (upload_url_of (next_id r')),
           r'\<lparr>releases := releases r' @
                  [\<lparr>tag_name = tag, upload_url = upload_url_of (next_id r'), assets = [],
                    release_id = next_id r', release_name = nm, release_body = body,
                    prerelease = pre\<rparr>],
              next_id := Suc (next_id r')\<rparr>))"

text \<open>
  Modelled from the spec: uploading an asset. It appends an asset with the given name
  and bytes and a fresh id to the release the URL addresses (the first whose endpoint
  is the URL) and answers 201 (created), or answers 404 when the URL addresses no
  release. The remote does not refuse a name that the release already has: the
  specification leaves the uniqueness of names to the publisher.
\<close>

fun add_asset :: "string \<Rightarrow> asset \<Rightarrow> release list \<Rightarrow> release list" where
  "add_asset url a [] = []"
| "add_asset url a (x # xs) =
     (if endpoint (upload_url x) = url then x\<lparr>assets := assets x @ [a]\<rparr> # xs
      else x # add_asset url a xs)"

definition requests_post_asset :: "string \<Rightarrow> string \<Rightarrow> string \<Rightarrow> remote \<Rightarrow> response \<times> remote" where
  "requests_post_asset url nm data r =
     (case take_fault (received (PostAsset url nm data) r) of
        (Some m, r') \<Rightarrow> (error_response 500 m, r')
      | (None, r') \<Rightarrow>
          if list_ex (\<lambda>x. endpoint (upload_url x) = url) (releases r')
          then (ok_response 201 [] [],
                r'\<lparr>releases := add_asset url
                                   \<lparr>asset_name = nm, asset_id = next_id r', asset_data = data\<rparr>
                                   (releases r'),
                   next_id := Suc (next_id r')\<rparr>)
          else (error_response 404 ''Not Found'', r'))"

text \<open>A request of the program acts on the remote held in the world.\<close>

definition request_on ::
  "(remote \<Rightarrow> response \<times> remote) \<Rightarrow> remote world \<Rightarrow> response \<times> remote world" where
  "request_on call w = (case call (env w) of (resp, r') \<Rightarrow> (resp, w\<lparr>env := r'\<rparr>))"


section \<open>Publishing\<close>

text \<open>The parsed command line.\<close>

record args =
  version :: string
  release_candidate :: "int option"
  gh_user :: string
  gh_token :: string
  gh_org :: string

text \<open>
  \<^verbatim>\<open>GetBundleVersion\<close>. The test \<^verbatim>\<open>if args.release_candidate\<close> is Python's truth
  test: it fails for \<^verbatim>\<open>None\<close> and for 0.
\<close>

definition GetBundleVersion :: "args \<Rightarrow> string" where
  "GetBundleVersion a =
     (case release_candidate a of
        Some n \<Rightarrow> if n \<noteq> 0 then version a @ ''-rc'' @ str_int n else version a
      | None \<Rightarrow> version a)"

text \<open>\<^verbatim>\<open>os.path.basename\<close> and \<^verbatim>\<open>os.path.join\<close> of two parts, on POSIX paths.\<close>

definition basename :: "string \<Rightarrow> string" where
  "basename p = rev (takeWhile (\<lambda>c. c \<noteq> CHR ''/'') (rev p))"


text \<open>
  The inner loop of \<^verbatim>\<open>UploadLlvm\<close> over the assets of a release with the wanted tag:
  the first asset with the bundle's name is deleted, and the \<^verbatim>\<open>break\<close> ends the loop
  there. A response other than 204 exits.
\<close>

fun delete_loop :: "args \<Rightarrow> string \<Rightarrow> string \<Rightarrow> asset list \<Rightarrow> remote world \<Rightarrow> (error + unit) \<times> remote world" where
  "delete_loop a bundle_version bundle_name [] w = (Inr (), w)"
| "delete_loop a bundle_version bundle_name (x # xs) w =
     (if asset_name x \<noteq> bundle_name then delete_loop a bundle_version bundle_name xs w
      else (case request_on (requests_delete (gh_org a) (asset_id x) bundle_version)
                   (py_print (''Deleting '' @ bundle_name @ '' on GitHub.'') w) of
              (resp, w') \<Rightarrow>
                if status_code resp \<noteq> 204
                then (Inl (SystemExit (''Creating release failed with message: '' @ message resp)), w')
                else (Inr (), w')))"

text \<open>
  The outer loop over the releases of the listing. A release with another tag is
  skipped; one with the wanted tag sets \<open>upload_url\<close> and has its assets scanned.
  The loop goes on after a match, so the last release with the tag gives the URL.
\<close>

fun release_loop ::
  "args \<Rightarrow> string \<Rightarrow> string \<Rightarrow> release list \<Rightarrow> string option \<Rightarrow> remote world
     \<Rightarrow> (error + string option) \<times> remote world" where
  "release_loop a bundle_version bundle_name [] url w = (Inr url, w)"
| "release_loop a bundle_version bundle_name (x # xs) url w =
     (if tag_name x \<noteq> bundle_version then release_loop a bundle_version bundle_name xs url w
      else (case delete_loop a bundle_version bundle_name (assets x)
                   (py_print (''Version '' @ bundle_version @ '' already released.'') w) of
              (Inl e, w') \<Rightarrow> (Inl e, w')
            | (Inr _, w') \<Rightarrow>
                release_loop a bundle_version bundle_name xs (Some (upload_url x)) w'))"

text \<open>
  The branch \<^verbatim>\<open>if not upload_url\<close>: a release is created. \<open>prerelease\<close> is
  \<^verbatim>\<open>args.release_candidate is not None\<close>, while the suffix of the name is added under
  the truth test of \<^verbatim>\<open>args.release_candidate\<close>.
\<close>

definition create_release :: "args \<Rightarrow> string \<Rightarrow> remote world \<Rightarrow> (error + string) \<times> remote world" where
  "create_release a bundle_version w =
     (let pre = (release_candidate a \<noteq> None);
          nm = (case release_candidate a of
                  Some n \<Rightarrow> if n \<noteq> 0 then ''LLVM and Clang '' @ version a @ '' RC'' @ str_int n
                            else ''LLVM and Clang '' @ version a
                | None \<Rightarrow> ''LLVM and Clang '' @ version a)
      in case request_on (requests_post_release (gh_org a) bundle_version nm
                            (nm @ '' without realtime, terminfo, and zlib dependencies.'') pre)
                (py_print (''Releasing '' @ bundle_version @ '' on GitHub.'') w) of
           (resp, w') \<Rightarrow>
             if status_code resp \<noteq> 201
             then (Inl (SystemExit (''Releasing failed with message: '' @ message resp)), w')
             else (Inr (json_upload_url resp), w'))"

text \<open>
  \<^verbatim>\<open>UploadLlvm(args, bundle_path)\<close>, with the bytes of the file at \<open>bundle_path\<close>
  given as \<open>bundle\<close> (\<^verbatim>\<open>Main\<close> has made the file before the call). \<^verbatim>\<open>not upload_url\<close>
  holds for \<^verbatim>\<open>None\<close> and for the empty string.
\<close>

definition UploadLlvm :: "args \<Rightarrow> string \<Rightarrow> string \<Rightarrow> remote world \<Rightarrow> (error + unit) \<times> remote world" where
  "UploadLlvm a bundle_path bundle w =
     (case request_on (requests_get (gh_org a)) w of
        (resp, w1) \<Rightarrow>
          if status_code resp \<noteq> 200
          then (Inl (SystemExit (''Getting releases failed with message: '' @ message resp)), w1)
          else
            (let bundle_version = GetBundleVersion a;
                 bundle_name = basename bundle_path
             in case release_loop a bundle_version bundle_name (json_releases resp) None w1 of
                  (Inl e, w2) \<Rightarrow> (Inl e, w2)
                | (Inr found, w2) \<Rightarrow>
                    (case (case found of
                             None \<Rightarrow> create_release a bundle_version w2
                           | Some u \<Rightarrow> if u = [] then create_release a bundle_version w2
                                      else (Inr u, w2)) of
                       (Inl e, w3) \<Rightarrow> (Inl e, w3)
                     | (Inr url, w3) \<Rightarrow>
                         (case request_on
                                 (requests_post_asset (replace_str ''{?name,label}'' [] url)
                                    bundle_name bundle)
                                 (py_print (''Uploading '' @ bundle_name @ '' on GitHub.'') w3) of
                            (resp', w4) \<Rightarrow>
                              if status_code resp' \<noteq> 201
                              then (Inl (SystemExit (''Uploading failed with message: ''
                                                      @ message resp')), w4)
                              else (Inr (), w4)))))"



section \<open>Remote states and what a run does to them\<close>

text \<open>
  The notions the properties of the upload are stated with. A remote is well formed
  when it is in a state the remote itself can reach: releases have different ids, the
  upload URL of a release is the one made from its id, assets have different ids, and
  every id is below the next one to be handed out.
\<close>

definition all_assets :: "release list \<Rightarrow> asset list" where
  "all_assets rs = concat (map assets rs)"

definition wf_remote :: "remote \<Rightarrow> bool" where
  "wf_remote r =
     (distinct (map release_id (releases r))
      \<and> list_all (\<lambda>x. upload_url x = upload_url_of (release_id x) \<and> release_id x < next_id r)
           (releases r)
      \<and> distinct (map asset_id (all_assets (releases r)))
      \<and> list_all (\<lambda>b. asset_id b < next_id r) (all_assets (releases r)))"

text \<open>The assets of a release that have the bundle's name.\<close>

definition named_assets :: "string \<Rightarrow> release \<Rightarrow> asset list" where
  "named_assets bn x = filter (\<lambda>b. asset_name b = bn) (assets x)"

text \<open>
  A release after the loop over the listing has passed it: a release with the wanted
  tag has lost the first asset of the bundle's name, if it had one; another release is
  unchanged.
\<close>

definition reconciled :: "string \<Rightarrow> string \<Rightarrow> release \<Rightarrow> release" where
  "reconciled bv bn x =
     (if tag_name x = bv
      then (case find (\<lambda>b. asset_name b = bn) (assets x) of
              None \<Rightarrow> x
            | Some b \<Rightarrow> without_asset (asset_id b) x)
      else x)"

text \<open>
  The delete requests of the loop: one for each release with the wanted tag that has
  an asset of the bundle's name, for the first such asset.
\<close>

definition delete_requests :: "string \<Rightarrow> string \<Rightarrow> string \<Rightarrow> release list \<Rightarrow> request list" where
  "delete_requests owner bv bn xs =
     concat (map (\<lambda>x. if tag_name x = bv
                       then (case find (\<lambda>b. asset_name b = bn) (assets x) of
                               None \<Rightarrow> []
                             | Some b \<Rightarrow> [DeleteAsset owner (asset_id b) bv])
                       else []) xs)"

text \<open>The value of \<open>upload_url\<close> after the loop.\<close>

definition last_url :: "string \<Rightarrow> release list \<Rightarrow> string option \<Rightarrow> string option" where
  "last_url bv xs u =
     (case filter (\<lambda>x. tag_name x = bv) xs of [] \<Rightarrow> u | y # ys \<Rightarrow> Some (upload_url (last (y # ys))))"

text \<open>
  A release after a whole run that found the tag: reconciled, and with the new asset
  appended when it is the release the upload was addressed to.
\<close>

definition published :: "string \<Rightarrow> string \<Rightarrow> nat \<Rightarrow> asset \<Rightarrow> release \<Rightarrow> release" where
  "published bv bn target new y =
     (if release_id y = target
      then (reconciled bv bn y)\<lparr>assets := assets (reconciled bv bn y) @ [new]\<rparr>
      else reconciled bv bn y)"

text \<open>
  The invariant of the data model, for one tag and one asset name: the remote is well
  formed, at most one release has the tag, and a release with the tag holds at most one
  asset of the name.
\<close>

definition publish_invariant :: "string \<Rightarrow> string \<Rightarrow> remote \<Rightarrow> bool" where
  "publish_invariant bv bn r =
     (wf_remote r
      \<and> length (filter (\<lambda>x. tag_name x = bv) (releases r)) \<le> 1
      \<and> list_all (\<lambda>x. if tag_name x = bv then length (named_assets bn x) \<le> 1 else True)
           (releases r))"

text \<open>No release with the tag holds an asset of the name.\<close>

definition vacant :: "string \<Rightarrow> string \<Rightarrow> remote \<Rightarrow> bool" where
  "vacant bv bn r =
     list_all (\<lambda>x. if tag_name x = bv then named_assets bn x = [] else True) (releases r)"

text \<open>
  Any number of runs of the upload, one after another, each against the remote as the
  run before left it, whether that run succeeded or stopped at an error.
\<close>

fun attempts :: "args \<Rightarrow> string \<Rightarrow> string \<Rightarrow> nat \<Rightarrow> remote world \<Rightarrow> remote world" where
  "attempts a path data 0 w = w"
| "attempts a path data (Suc n) w = attempts a path data n (snd (UploadLlvm a path data w))"

text \<open>The number of listings (the first step of a run) a remote has received.\<close>

definition is_get :: "request \<Rightarrow> bool" where
  "is_get q = (case q of GetReleases _ \<Rightarrow> True | _ \<Rightarrow> False)"

definition locate_count :: "remote world \<Rightarrow> nat" where
  "locate_count w = length (filter is_get (requests (env w)))"

text \<open>
  Inputs for the examples: version 18.1.0 with no release candidate; a remote with no
  release; a remote on which the bundle has been published once; and a remote whose
  release 18.1.0 holds two assets of the bundle's name.
\<close>

definition example_args :: args where
  "example_args = \<lparr>version = ''18.1.0'', release_candidate = None, gh_user = ''user'',
                    gh_token = ''token'', gh_org = ''ycm-core''\<rparr>"

definition example_path :: string where
  "example_path = ''/src/clang+llvm-18.1.0-x86_64-unknown-linux-gnu.tar.xz''"

definition example_release :: "asset list \<Rightarrow> release" where
  "example_release xs =
     \<lparr>tag_name = ''18.1.0'',
      upload_url = ''https://uploads.github.com/releases/1/assets{?name,label}'',
      assets = xs, release_id = 1, release_name = ''LLVM and Clang 18.1.0'',
      release_body = ''LLVM and Clang 18.1.0 without realtime, terminfo, and zlib dependencies.'',
      prerelease = False\<rparr>"

definition example_asset :: "nat \<Rightarrow> asset" where
  "example_asset n =
     \<lparr>asset_name = ''clang+llvm-18.1.0-x86_64-unknown-linux-gnu.tar.xz'', asset_id = n,
      asset_data = ''OLD''\<rparr>"

definition empty_remote :: "remote world" where
  "empty_remote = \<lparr>events = [], env = \<lparr>releases = [], next_id = 1, faults = [], requests = []\<rparr>\<rparr>"

definition published_remote :: "remote world" where
  "published_remote =
     \<lparr>events = [],
      env = \<lparr>releases = [example_release [example_asset 2]], next_id = 3, faults = [],
             requests = []\<rparr>\<rparr>"

definition duplicated_remote :: "remote world" where
  "duplicated_remote =
     \<lparr>events = [],
      env = \<lparr>releases = [example_release [example_asset 2, example_asset 3]], next_id = 4,
             faults = [], requests = []\<rparr>\<rparr>"




section \<open>Strings and decimal numerals\<close>

lemma split_str_nonempty: "split_str sep s \<noteq> []"
  by (induction s) (auto split: list.splits)

lemma split_str_no_sep: "sep \<notin> set s \<Longrightarrow> split_str sep s = [s]"
  by (induction s) auto

lemma split_str_append:
  "sep \<notin> set x \<Longrightarrow> split_str sep (x @ sep # rest) = x # split_str sep rest"
  by (induction x) auto

lemma split_join:
  "cs \<noteq> [] \<Longrightarrow> list_all (\<lambda>c. sep \<notin> set c) cs \<Longrightarrow> split_str sep (join_str [sep] cs) = cs"
proof (induction cs)
  case Nil
  then show ?case by simp
next
  case (Cons x xs)
  then show ?case by (cases xs) (simp_all add: split_str_no_sep split_str_append)
qed

lemma is_digit_not_space: "is_digit c \<Longrightarrow> \<not> is_space c"
  by (auto simp: is_digit_def is_space_def)

lemma strip_numeric: "numeric s \<Longrightarrow> strip s = s"
proof -
  assume n: "numeric s"
  then obtain a r where s: "s = a # r" and a: "is_digit a"
    by (cases s) (auto simp: numeric_def)
  from n obtain r' b where s': "s = r' @ [b]" and b: "is_digit b"
    by (cases s rule: rev_cases) (auto simp: numeric_def)
  have "dropWhile is_space s = s" using s a by (simp add: is_digit_not_space)
  moreover have "dropWhile is_space (rev s) = rev s" using s' b by (simp add: is_digit_not_space)
  ultimately show ?thesis by (simp add: strip_def)
qed

lemma digit_char_val: "is_digit c \<Longrightarrow> digit_char (digit_val c) = c"
  by (auto simp: is_digit_def digit_char_def digit_val_def)

lemma digit_val_lt: "is_digit c \<Longrightarrow> digit_val c < 10"
  by (auto simp: is_digit_def digit_val_def)

lemma digit_val_pos: "is_digit c \<Longrightarrow> c \<noteq> CHR ''0'' \<Longrightarrow> 0 < digit_val c"
  by (auto simp: is_digit_def digit_val_def)

lemma digit_lt_10_cases: "d < 10 \<Longrightarrow> d \<in> {0, 1, 2, 3, 4, 5, 6, 7, 8, 9::nat}"
  by auto

lemma digit_val_char: "d < 10 \<Longrightarrow> digit_val (digit_char d) = d"
  by (drule digit_lt_10_cases) (auto simp: digit_char_def digit_val_def)

lemma is_digit_char: "d < 10 \<Longrightarrow> is_digit (digit_char d)"
  by (drule digit_lt_10_cases) (auto simp: digit_char_def is_digit_def)

lemma digits_val_snoc: "digits_val (s @ [c]) = 10 * digits_val s + digit_val c"
  by (simp add: digits_val_def)

lemma digits_val_pos: "numeric s \<Longrightarrow> hd s \<noteq> CHR ''0'' \<Longrightarrow> 0 < digits_val s"
proof (induction s rule: rev_induct)
  case Nil
  then show ?case by (simp add: numeric_def)
next
  case (snoc c q)
  show ?case
  proof (cases q)
    case Nil
    with snoc.prems show ?thesis
      by (simp add: numeric_def digits_val_def digit_val_pos)
  next
    case (Cons a q')
    with snoc have "0 < digits_val q" by (simp add: numeric_def)
    then show ?thesis by (simp add: digits_val_snoc)
  qed
qed

text \<open>Printing the value of a canonical numeral gives the numeral back.\<close>

lemma str_nat_digits_val: "canonical s \<Longrightarrow> str_nat (digits_val s) = s"
proof (induction s rule: rev_induct)
  case Nil
  then show ?case by (simp add: canonical_def numeric_def)
next
  case (snoc c q)
  from snoc.prems have c: "is_digit c" by (simp add: canonical_def numeric_def)
  show ?case
  proof (cases q)
    case Nil
    with c show ?thesis
      by (simp add: digits_val_def str_nat.simps digit_val_lt digit_char_val)
  next
    case (Cons a q')
    with snoc.prems have q: "numeric q" "hd q \<noteq> CHR ''0''"
      by (auto simp: canonical_def numeric_def)
    then have "canonical q" by (simp add: canonical_def)
    then have ih: "str_nat (digits_val q) = q" by (rule snoc.IH)
    have pos: "0 < digits_val q" using q by (rule digits_val_pos)
    have lt: "digit_val c < 10" using c by (rule digit_val_lt)
    have "str_nat (10 * digits_val q + digit_val c) =
          str_nat ((10 * digits_val q + digit_val c) div 10)
            @ [digit_char ((10 * digits_val q + digit_val c) mod 10)]"
      using pos by (subst str_nat.simps) simp
    also have "\<dots> = q @ [c]" using lt ih c by (simp add: digit_char_val)
    finally show ?thesis by (simp add: digits_val_snoc)
  qed
qed

lemma numeric_str_nat: "numeric (str_nat n)"
proof (induction n rule: str_nat.induct)
  case (1 n)
  show ?case
  proof (cases "n < 10")
    case True
    then show ?thesis by (subst str_nat.simps) (simp add: numeric_def is_digit_char)
  next
    case False
    with 1 have "numeric (str_nat (n div 10))" by simp
    then show ?thesis using False
      by (subst str_nat.simps) (simp add: numeric_def is_digit_char)
  qed
qed

text \<open>Reading a printed number gives the number back, so printing is injective.\<close>

lemma digits_val_str_nat: "digits_val (str_nat n) = n"
proof (induction n rule: str_nat.induct)
  case (1 n)
  show ?case
  proof (cases "n < 10")
    case True
    then show ?thesis by (subst str_nat.simps) (simp add: digits_val_def digit_val_char)
  next
    case False
    with 1 have "digits_val (str_nat (n div 10)) = n div 10" by simp
    then show ?thesis using False
      by (subst str_nat.simps) (simp add: digits_val_snoc digit_val_char)
  qed
qed

lemma str_nat_inj: "str_nat m = str_nat n \<Longrightarrow> m = n"
  by (metis digits_val_str_nat)

lemma numeric_no_char: "numeric s \<Longrightarrow> \<not> is_digit c \<Longrightarrow> c \<notin> set s"
  by (auto simp: numeric_def list_all_iff)

lemma py_int_numeric: "numeric s \<Longrightarrow> py_int s = Inr (int (digits_val s))"
proof -
  assume n: "numeric s"
  then obtain a r where s: "s = a # r" and a: "is_digit a"
    by (cases s) (auto simp: numeric_def)
  have nosign: "a \<noteq> CHR ''-''" "a \<noteq> CHR ''+''" using a by (auto simp: is_digit_def)
  have "CHR ''_'' \<notin> set s" using n by (rule numeric_no_char) (simp add: is_digit_def)
  then have sp: "split_str CHR ''_'' s = [s]" by (rule split_str_no_sep)
  show ?thesis
    using n nosign sp by (simp add: py_int_def strip_numeric s Let_def)
qed

lemma str_int_nat: "str_int (int n) = str_nat n"
  by (simp add: str_int_def)

lemma str_nat_0: "str_nat 0 = ''0''"
  by (simp add: str_nat.simps digit_char_def)

lemma str_int_0: "str_int 0 = ''0''"
  by (simp add: str_int_def str_nat_0)


section \<open>Properties of Version\<close>

lemma numeric_dot_free: "numeric c \<Longrightarrow> CHR ''.'' \<notin> set c"
  by (rule numeric_no_char) (simp_all add: is_digit_def)

text \<open>
  On a string made of components without a dot, \<^verbatim>\<open>__init__\<close> reads the components
  themselves.
\<close>

lemma Version_init_join:
  assumes "cs \<noteq> []" and "list_all (\<lambda>c. CHR ''.'' \<notin> set c) cs"
  shows "Version_init (join_str ''.'' cs) =
     (case py_int (cs ! 0) of
        Inl e \<Rightarrow> Inl e
      | Inr ma \<Rightarrow>
          (case (if length cs > 1 then py_int (cs ! 1) else Inr 0) of
             Inl e \<Rightarrow> Inl e
           | Inr mi \<Rightarrow>
               (case (if length cs > 2 then py_int (cs ! 2) else Inr 0) of
                  Inl e \<Rightarrow> Inl e
                | Inr pa \<Rightarrow> Inr \<lparr>major = ma, minor = mi, patch = pa\<rparr>)))"
  using assms by (simp add: Version_init_def split_join)

text \<open>
  C7. A dotted string of one, two or three components, each a non-empty run of decimal
  digits, parses to the version with those values (0 for a missing minor or patch), and
  parsing then formatting gives the three values in decimal, joined by dots. When the
  components are canonical numerals, the result is the input itself, filled up with
  \<open>.0\<close> to three components.
\<close>

theorem Version_parse_format:
  assumes "cs \<noteq> []" and "length cs \<le> 3" and "list_all numeric cs"
  shows "Version_init (join_str ''.'' cs) =
           Inr \<lparr>major = int (digits_val (cs ! 0)),
                minor = (if 1 < length cs then int (digits_val (cs ! 1)) else 0),
                patch = (if 2 < length cs then int (digits_val (cs ! 2)) else 0)\<rparr>
         \<and> Version_str (join_str ''.'' cs) =
             Inr (join_str ''.'' (map (\<lambda>c. str_nat (digits_val c)) cs
                                    @ replicate (3 - length cs) ''0''))
         \<and> (list_all canonical cs \<longrightarrow>
               Version_str (join_str ''.'' cs) =
                 Inr (join_str ''.'' (cs @ replicate (3 - length cs) ''0'')))"
proof -
  have df: "list_all (\<lambda>c. CHR ''.'' \<notin> set c) cs"
    using assms(3) by (simp add: list_all_iff numeric_dot_free)
  note init = Version_init_join[OF assms(1) df]
  consider a where "cs = [a]" | a b where "cs = [a, b]" | a b c where "cs = [a, b, c]"
    using assms(1,2) by (cases cs; cases "tl cs"; cases "tl (tl cs)") auto
  then show ?thesis
  proof cases
    case 1
    with assms(3) init show ?thesis
      by (simp add: py_int_numeric Version_str_def Version_repr_def str_int_nat str_int_0
          str_nat_digits_val numeral_3_eq_3)
  next
    case 2
    with assms(3) init show ?thesis
      by (simp add: py_int_numeric Version_str_def Version_repr_def str_int_nat str_int_0
          str_nat_digits_val)
  next
    case 3
    with assms(3) init show ?thesis
      by (simp add: py_int_numeric Version_str_def Version_repr_def str_int_nat str_int_0
          str_nat_digits_val)
  qed
qed

theorem Version_parse_format_witness:
  "Version_init ''18.1'' = Inr \<lparr>major = 18, minor = 1, patch = 0\<rparr>
   \<and> Version_str ''18.1'' = Inr ''18.1.0''"
  using Version_parse_format[of "[''18'', ''1'']"]
  by (auto simp add: str_nat.simps digit_char_def numeric_def canonical_def is_digit_def
      digits_val_def digit_val_def)

text \<open>
  C10. A dotted string of more than three components whose first three are numeric
  parses without error to the version of the first three; what follows the third
  component, numeric or not, is ignored: the result is that of parsing the first three
  components alone.
\<close>

theorem Version_init_ignores_rest:
  assumes "3 < length cs" and "list_all numeric (take 3 cs)"
    and "list_all (\<lambda>c. CHR ''.'' \<notin> set c) (drop 3 cs)"
  shows "Version_init (join_str ''.'' cs) =
           Inr \<lparr>major = int (digits_val (cs ! 0)), minor = int (digits_val (cs ! 1)),
                patch = int (digits_val (cs ! 2))\<rparr>
         \<and> Version_init (join_str ''.'' cs) = Version_init (join_str ''.'' (take 3 cs))"
proof -
  from assms(1) obtain a b c d r where cs: "cs = a # b # c # d # r"
    by (cases cs; cases "tl cs"; cases "tl (tl cs)"; cases "tl (tl (tl cs))") auto
  have num: "numeric a" "numeric b" "numeric c"
    using assms(2) cs by (simp_all add: numeral_3_eq_3)
  have df: "list_all (\<lambda>c. CHR ''.'' \<notin> set c) cs"
    using assms(3) num cs by (simp add: numeric_dot_free)
  have df3: "list_all (\<lambda>c. CHR ''.'' \<notin> set c) (take 3 cs)"
    using num cs by (simp add: numeric_dot_free numeral_3_eq_3)
  have "Version_init (join_str ''.'' cs) =
          Inr \<lparr>major = int (digits_val a), minor = int (digits_val b), patch = int (digits_val c)\<rparr>"
    using Version_init_join[OF _ df] num cs by (simp add: py_int_numeric)
  moreover have "Version_init (join_str ''.'' (take 3 cs)) =
          Inr \<lparr>major = int (digits_val a), minor = int (digits_val b), patch = int (digits_val c)\<rparr>"
    using Version_init_join[OF _ df3] num cs by (simp add: py_int_numeric numeral_3_eq_3)
  ultimately show ?thesis using cs by simp
qed

theorem Version_init_ignores_rest_witness:
  "Version_init ''1.2.3.4'' = Inr \<lparr>major = 1, minor = 2, patch = 3\<rparr>
   \<and> Version_init ''1.2.3.4'' = Version_init ''1.2.3''
   \<and> Version_init ''1.2.3.x'' = Inr \<lparr>major = 1, minor = 2, patch = 3\<rparr>"
  using Version_init_ignores_rest[of "[''1'', ''2'', ''3'', ''4'']"]
    Version_init_ignores_rest[of "[''1'', ''2'', ''3'', ''x'']"]
  by (auto simp add: numeric_def is_digit_def digits_val_def digit_val_def numeral_3_eq_3)





section \<open>Properties of Retries\<close>

text \<open>
  A \<open>SystemExit\<close> leaves the loop only through the handler's own \<^verbatim>\<open>sys.exit\<close>: the
  message is the fixed one, and the world is the one left by a failed call of the
  operation followed by the log line of the retry count that exceeded the bound.
\<close>

lemma Retries_loop_exit:
  assumes "fst (Retries_loop func mx nb w) = Inl (SystemExit m)" and "nb \<le> mx"
  shows "m = ''Number of retries exceeded ('' @ str_nat mx @ ''). Aborting.''
       \<and> (\<exists>w3 w4 m'. func w3 = (Inl (SystemExit m'), w4)
             \<and> snd (Retries_loop func mx nb w) =
                 py_print (''ERROR: '' @ m' @ '' Retry '' @ str_nat (Suc mx) @ ''. '') w4)"
  using assms
proof (induction func mx nb w rule: Retries_loop.induct)
  case (1 func mx nb w)
  obtain r w1 where f: "func w = (r, w1)" by (cases "func w")
  show ?case
  proof (cases r)
    case (Inr x)
    with f "1.prems" show ?thesis by (simp add: Retries_loop.simps[of func mx nb w])
  next
    case (Inl e)
    show ?thesis
    proof (cases e)
      case (ValueError x)
      with f Inl "1.prems" show ?thesis by (simp add: Retries_loop.simps[of func mx nb w])
    next
      case (SystemExit msg)
      show ?thesis
      proof (cases "nb + 1 > mx")
        case True
        with "1.prems"(2) have nb: "nb = mx" by simp
        from True f Inl SystemExit "1.prems"(1) have "m = ''Number of retries exceeded ('' @ str_nat mx @ ''). Aborting.''"
          by (simp add: Retries_loop.simps[of func mx nb w] Let_def)
        moreover have "snd (Retries_loop func mx nb w) =
                 py_print (''ERROR: '' @ msg @ '' Retry '' @ str_nat (Suc nb) @ ''. '') w1"
          using True f Inl SystemExit by (simp add: Retries_loop.simps[of func mx nb w] Let_def)
        ultimately show ?thesis using f Inl SystemExit nb by blast
      next
        case False
        let ?w' = "time_sleep RETRY_INTERVAL (py_print (''ERROR: '' @ msg @ '' Retry '' @ str_nat (nb + 1) @ ''. '') w1)"
        have eq: "Retries_loop func mx nb w = Retries_loop func mx (nb + 1) ?w'"
          using False f Inl SystemExit by (simp add: Retries_loop.simps[of func mx nb w] Let_def)
        have "m = ''Number of retries exceeded ('' @ str_nat mx @ ''). Aborting.''
           \<and> (\<exists>w3 w4 m'. func w3 = (Inl (SystemExit m'), w4)
             \<and> snd (Retries_loop func mx (nb + 1) ?w') =
                 py_print (''ERROR: '' @ m' @ '' Retry '' @ str_nat (Suc mx) @ ''. '') w4)"
          using False "1.prems" eq
          by (intro "1.IH"[OF f[symmetric] Inl SystemExit refl refl]) simp_all
        then show ?thesis by (simp add: eq)
      qed
    qed
  qed
qed

lemma Retries_loop_fail_step:
  "func w = (Inl (SystemExit m), w1) \<Longrightarrow>
   Retries_loop func mx nb w =
     (if Suc nb > mx
      then (Inl (SystemExit (''Number of retries exceeded ('' @ str_nat mx @ ''). Aborting.'')),
            py_print (''ERROR: '' @ m @ '' Retry '' @ str_nat (Suc nb) @ ''. '') w1)
      else Retries_loop func mx (Suc nb)
             (time_sleep RETRY_INTERVAL
                (py_print (''ERROR: '' @ m @ '' Retry '' @ str_nat (Suc nb) @ ''. '') w1)))"
  by (simp add: Retries_loop.simps[of func mx nb w] Let_def)

lemma env_py_print: "env (py_print s w) = env w"
  by (simp add: py_print_def)

lemma env_time_sleep: "env (time_sleep n w) = env w"
  by (simp add: time_sleep_def)

lemma str_nat_3: "str_nat 3 = ''3''"
  by (simp add: str_nat.simps digit_char_def)

lemma str_nat_4: "str_nat 4 = ''4''"
  by (simp add: str_nat.simps digit_char_def)

lemma counting_fails:
  assumes "\<forall>w. \<exists>m. fst (func w) = Inl (SystemExit m)"
  shows "\<exists>m w1. counting func w = (Inl (SystemExit m), w1) \<and> snd (env w1) = Suc (snd (env w))"
proof -
  obtain r w' where f: "func \<lparr>events = events w, env = fst (env w)\<rparr> = (r, w')"
    by (cases "func \<lparr>events = events w, env = fst (env w)\<rparr>")
  with assms obtain m where "r = Inl (SystemExit m)" by (metis fst_conv)
  with f show ?thesis by (simp add: counting_def)
qed

text \<open>
  C6. An operation that fails with \<open>SystemExit\<close> every time it is called is called
  exactly four times by \<^verbatim>\<open>Retries\<close> (whose bound \<open>max_retries\<close> is 3): the probe's
  counter ends four higher. \<^verbatim>\<open>Retries\<close> then exits with its own \<open>SystemExit\<close>.
\<close>

theorem Retries_four_attempts:
  assumes "\<forall>w. \<exists>m. fst (func w) = Inl (SystemExit m)"
  shows "fst (Retries (counting func) w) =
           Inl (SystemExit ''Number of retries exceeded (3). Aborting.'')
         \<and> snd (env (snd (Retries (counting func) w))) = snd (env w) + 4"
proof -
  let ?cf = "counting func"
  let ?log = "\<lambda>m k. py_print (''ERROR: '' @ m @ '' Retry '' @ str_nat k @ ''. '')"
  note step = counting_fails[OF assms]
  obtain m1 w1 where 1: "?cf w = (Inl (SystemExit m1), w1)" "snd (env w1) = Suc (snd (env w))"
    using step by blast
  let ?v1 = "time_sleep RETRY_INTERVAL (?log m1 (Suc 0) w1)"
  obtain m2 w2 where 2: "?cf ?v1 = (Inl (SystemExit m2), w2)" "snd (env w2) = Suc (snd (env ?v1))"
    using step by blast
  let ?v2 = "time_sleep RETRY_INTERVAL (?log m2 (Suc (Suc 0)) w2)"
  obtain m3 w3 where 3: "?cf ?v2 = (Inl (SystemExit m3), w3)" "snd (env w3) = Suc (snd (env ?v2))"
    using step by blast
  let ?v3 = "time_sleep RETRY_INTERVAL (?log m3 (Suc (Suc (Suc 0))) w3)"
  obtain m4 w4 where 4: "?cf ?v3 = (Inl (SystemExit m4), w4)" "snd (env w4) = Suc (snd (env ?v3))"
    using step by blast
  have three: "(3::nat) = Suc (Suc (Suc 0))" by simp
  have "Retries ?cf w = Retries_loop ?cf 3 (Suc 0) ?v1"
    unfolding Retries_def Retries_loop_fail_step[of ?cf w m1 w1, OF 1(1)] by (simp add: three)
  also have "\<dots> = Retries_loop ?cf 3 (Suc (Suc 0)) ?v2"
    unfolding Retries_loop_fail_step[of ?cf ?v1 m2 w2, OF 2(1)] by (simp add: three)
  also have "\<dots> = Retries_loop ?cf 3 (Suc (Suc (Suc 0))) ?v3"
    unfolding Retries_loop_fail_step[of ?cf ?v2 m3 w3, OF 3(1)] by (simp add: three)
  also have "\<dots> = (Inl (SystemExit ''Number of retries exceeded (3). Aborting.''),
                    ?log m4 (Suc (Suc (Suc (Suc 0)))) w4)"
    unfolding Retries_loop_fail_step[of ?cf ?v3 m4 w4, OF 4(1)] by (simp add: str_nat_3)
  finally have "Retries ?cf w =
      (Inl (SystemExit ''Number of retries exceeded (3). Aborting.''),
       ?log m4 (Suc (Suc (Suc (Suc 0)))) w4)" .
  moreover have "snd (env (?log m4 (Suc (Suc (Suc (Suc 0)))) w4)) = snd (env w) + 4"
    using 1(2) 2(2) 3(2) 4(2) by (simp add: env_py_print env_time_sleep)
  ultimately show ?thesis by simp
qed

theorem Retries_four_attempts_witness:
  "fst (Retries (counting (\<lambda>w. (Inl (SystemExit ''down'') :: error + unit, w)))
          \<lparr>events = [], env = ((), 0)\<rparr>) =
     Inl (SystemExit ''Number of retries exceeded (3). Aborting.'')
   \<and> snd (env (snd (Retries (counting (\<lambda>w. (Inl (SystemExit ''down'') :: error + unit, w)))
          \<lparr>events = [], env = ((), 0)\<rparr>))) = 4"
  using Retries_four_attempts[of "\<lambda>w. (Inl (SystemExit ''down'') :: error + unit, w)"
      "\<lparr>events = [], env = ((), 0)\<rparr>"]
  by simp

text \<open>
  C5, as the code has it. When \<^verbatim>\<open>Retries\<close> ends with a \<open>SystemExit\<close>, its message is
  always \<^verbatim>\<open>Number of retries exceeded (3). Aborting.\<close>, whatever the operation's errors
  were. The error of the last failed call is not in the message: it is in the log line
  \<^verbatim>\<open>ERROR: <error> Retry 4. \<close>, the last thing printed before the exit. (Python also
  keeps the caught exception as the \<^verbatim>\<open>__context__\<close> of the new one; \<^verbatim>\<open>sys.exit\<close> prints
  the message only.)
\<close>

theorem Retries_exhausted:
  assumes "fst (Retries func w) = Inl (SystemExit m)"
  shows "m = ''Number of retries exceeded (3). Aborting.''
       \<and> (\<exists>w3 w4 m'. func w3 = (Inl (SystemExit m'), w4)
             \<and> snd (Retries func w) = py_print (''ERROR: '' @ m' @ '' Retry 4. '') w4)"
proof -
  have "Suc 3 = 4" by simp
  then show ?thesis
    using Retries_loop_exit[of func 3 0 w m] assms
    by (simp only: Retries_def str_nat_3 str_nat_4) simp
qed

theorem Retries_exhausted_witness:
  "fst (Retries (\<lambda>w. (Inl (SystemExit ''boom'') :: error + unit, w)) \<lparr>events = [], env = ()\<rparr>) =
     Inl (SystemExit ''Number of retries exceeded (3). Aborting.'')
   \<and> (\<exists>w3 w4 m'. (\<lambda>w. (Inl (SystemExit ''boom'') :: error + unit, w)) w3 = (Inl (SystemExit m'), w4)
         \<and> snd (Retries (\<lambda>w. (Inl (SystemExit ''boom'') :: error + unit, w)) \<lparr>events = [], env = ()\<rparr>) =
             py_print (''ERROR: '' @ m' @ '' Retry 4. '') w4)"
proof -
  have h: "fst (Retries (\<lambda>w. (Inl (SystemExit ''boom'') :: error + unit, w)) \<lparr>events = [], env = ()\<rparr>) =
     Inl (SystemExit ''Number of retries exceeded (3). Aborting.'')"
    by code_simp
  show ?thesis using Retries_exhausted[OF h] h by simp
qed

text \<open>
  The claim as the specification states it fails: an operation whose error is
  \<^verbatim>\<open>boom\<close> ends in a \<open>SystemExit\<close> whose message does not contain \<^verbatim>\<open>boom\<close>.
\<close>

theorem Retries_message_counterexample:
  "fst (Retries (\<lambda>w. (Inl (SystemExit ''boom'') :: error + unit, w)) \<lparr>events = [], env = ()\<rparr>) =
     Inl (SystemExit ''Number of retries exceeded (3). Aborting.'')
   \<and> \<not> contains ''boom'' ''Number of retries exceeded (3). Aborting.''"
  by code_simp


section \<open>Properties of the dependency scan\<close>

text \<open>
  C9. The two lines of the example, in either order, give the dependency
  \<^verbatim>\<open>libc.so.6\<close> and the version 2.34.0 recorded for \<^verbatim>\<open>GLIBC\<close>;
  \<^verbatim>\<open>CheckDependencies\<close> on a dump made of them returns that record and prints the
  dependency. On every line both patterns are tried: the dependencies are extended by
  what the first pattern captures whatever the second one does, and the versions by
  what the second one captures whatever the first one did.
\<close>

theorem CheckDependencies_scan:
  "scan_lines [''  NEEDED               libc.so.6'', ''    0x00000001 0x00 12 GLIBC_2.34''] [] []
     = Inr ([''libc.so.6''], [(''GLIBC'', [\<lparr>major = 2, minor = 34, patch = 0\<rparr>])])
   \<and> scan_lines [''    0x00000001 0x00 12 GLIBC_2.34'', ''  NEEDED               libc.so.6''] [] []
     = Inr ([''libc.so.6''], [(''GLIBC'', [\<lparr>major = 2, minor = 34, patch = 0\<rparr>])])
   \<and> CheckDependencies ''libclang''
        ''  NEEDED               libc.so.6\<newline>    0x00000001 0x00 12 GLIBC_2.34\<newline>'' []
        \<lparr>events = [], env = ()\<rparr>
     = (Inr [(''GLIBC'', [\<lparr>major = 2, minor = 34, patch = 0\<rparr>])],
        \<lparr>events = [Print ''List of libclang dependencies:'', Print ''libc.so.6''], env = ()\<rparr>)
   \<and> scan_lines (line # rest) deps vs =
       (case OBJDUMP_VERSION_REGEX line of
          None \<Rightarrow>
            scan_lines rest (deps @ (case OBJDUMP_NEEDED_REGEX line of Some d \<Rightarrow> [d] | None \<Rightarrow> [])) vs
        | Some (library, ver) \<Rightarrow>
            (case Version_init ver of
               Inl e \<Rightarrow> Inl e
             | Inr v \<Rightarrow>
                 scan_lines rest (deps @ (case OBJDUMP_NEEDED_REGEX line of Some d \<Rightarrow> [d] | None \<Rightarrow> []))
                   (versions_append library v vs)))"
proof -
  have 1: "scan_lines [''  NEEDED               libc.so.6'', ''    0x00000001 0x00 12 GLIBC_2.34''] [] []
     = Inr ([''libc.so.6''], [(''GLIBC'', [\<lparr>major = 2, minor = 34, patch = 0\<rparr>])])"
    by code_simp
  have 2: "scan_lines [''    0x00000001 0x00 12 GLIBC_2.34'', ''  NEEDED               libc.so.6''] [] []
     = Inr ([''libc.so.6''], [(''GLIBC'', [\<lparr>major = 2, minor = 34, patch = 0\<rparr>])])"
    by code_simp
  have 3: "CheckDependencies ''libclang''
        ''  NEEDED               libc.so.6\<newline>    0x00000001 0x00 12 GLIBC_2.34\<newline>'' []
        \<lparr>events = [], env = ()\<rparr>
     = (Inr [(''GLIBC'', [\<lparr>major = 2, minor = 34, patch = 0\<rparr>])],
        \<lparr>events = [Print ''List of libclang dependencies:'', Print ''libc.so.6''], env = ()\<rparr>)"
    by code_simp
  have 4: "scan_lines (line # rest) deps vs =
       (case OBJDUMP_VERSION_REGEX line of
          None \<Rightarrow>
            scan_lines rest (deps @ (case OBJDUMP_NEEDED_REGEX line of Some d \<Rightarrow> [d] | None \<Rightarrow> [])) vs
        | Some (library, ver) \<Rightarrow>
            (case Version_init ver of
               Inl e \<Rightarrow> Inl e
             | Inr v \<Rightarrow>
                 scan_lines rest (deps @ (case OBJDUMP_NEEDED_REGEX line of Some d \<Rightarrow> [d] | None \<Rightarrow> []))
                   (versions_append library v vs)))"
    by (auto split: option.splits sum.splits)
  from 1 2 3 4 show ?thesis by (intro conjI)
qed


section \<open>The remote's operations when every request is served\<close>

lemma replace_skip_prefix:
  "old \<noteq> [] \<Longrightarrow> hd old \<notin> set s \<Longrightarrow> replace_skip old new 0 (s @ t) = s @ replace_skip old new 0 t"
  by (induction s) (auto simp: starts_with_def neq_Nil_conv)

lemma brace_not_digit: "numeric s \<Longrightarrow> CHR ''{'' \<notin> set s"
  by (rule numeric_no_char) (simp_all add: is_digit_def)

lemma endpoint_upload_url_of:
  "endpoint (upload_url_of n) = ''https://uploads.github.com/releases/'' @ str_nat n @ ''/assets''"
proof -
  have "CHR ''{'' \<notin> set (''https://uploads.github.com/releases/'' @ str_nat n)"
    using brace_not_digit[OF numeric_str_nat[of n]] by simp
  then have "replace_skip ''{?name,label}'' [] 0
          ((''https://uploads.github.com/releases/'' @ str_nat n) @ ''/assets{?name,label}'')
        = (''https://uploads.github.com/releases/'' @ str_nat n)
            @ replace_skip ''{?name,label}'' [] 0 ''/assets{?name,label}''"
    by (intro replace_skip_prefix) simp_all
  moreover have "replace_skip ''{?name,label}'' [] 0 ''/assets{?name,label}'' = ''/assets''"
    by (simp add: starts_with_def)
  ultimately show ?thesis
    by (simp add: endpoint_def replace_str_def upload_url_of_def)
qed

lemma endpoint_inj: "endpoint (upload_url_of m) = endpoint (upload_url_of n) \<Longrightarrow> m = n"
  by (simp add: endpoint_upload_url_of str_nat_inj)

lemma upload_url_of_nonempty: "upload_url_of n \<noteq> []"
  by (simp add: upload_url_of_def)

lemma take_fault_none: "faults r = [] \<Longrightarrow> take_fault r = (None, r)"
  by (simp add: take_fault_def)

lemma requests_get_ok:
  "faults r = [] \<Longrightarrow>
   requests_get owner r = (ok_response 200 (releases r) [], received (GetReleases owner) r)"
  by (simp add: requests_get_def take_fault_def received_def)

lemma requests_delete_ok:
  "faults r = [] \<Longrightarrow> list_ex (\<lambda>x. list_ex (\<lambda>b. asset_id b = aid) (assets x)) (releases r) \<Longrightarrow>
   requests_delete owner aid tag r =
     (ok_response 204 [] [],
      (received (DeleteAsset owner aid tag) r)\<lparr>releases := map (without_asset aid) (releases r)\<rparr>)"
  by (simp add: requests_delete_def take_fault_def received_def)

lemma requests_post_release_ok:
  "faults r = [] \<Longrightarrow>
   requests_post_release owner tag nm body pre r =
     (ok_response 201 [] (upload_url_of (next_id r)),
      (received (PostRelease owner tag nm body pre) r)
        \<lparr>releases := releases r @
            [\<lparr>tag_name = tag, upload_url = upload_url_of (next_id r), assets = [],
              release_id = next_id r, release_name = nm, release_body = body, prerelease = pre\<rparr>],
         next_id := Suc (next_id r)\<rparr>)"
  by (simp add: requests_post_release_def take_fault_def received_def)

lemma requests_post_asset_ok:
  "faults r = [] \<Longrightarrow> list_ex (\<lambda>x. endpoint (upload_url x) = url) (releases r) \<Longrightarrow>
   requests_post_asset url nm data r =
     (ok_response 201 [] [],
      (received (PostAsset url nm data) r)
        \<lparr>releases := add_asset url \<lparr>asset_name = nm, asset_id = next_id r, asset_data = data\<rparr>
                        (releases r),
         next_id := Suc (next_id r)\<rparr>)"
  by (simp add: requests_post_asset_def take_fault_def received_def)

text \<open>The inner loop deletes the first asset of the wanted name, if there is one.\<close>

lemma delete_loop_find:
  "delete_loop a bv bn xs w =
     (case find (\<lambda>b. asset_name b = bn) xs of
        None \<Rightarrow> (Inr (), w)
      | Some b \<Rightarrow>
          (case request_on (requests_delete (gh_org a) (asset_id b) bv)
                  (py_print (''Deleting '' @ bn @ '' on GitHub.'') w) of
             (resp, w') \<Rightarrow>
               if status_code resp \<noteq> 204
               then (Inl (SystemExit (''Creating release failed with message: '' @ message resp)), w')
               else (Inr (), w')))"
  by (induction xs) auto

lemma find_Some_mem: "find P xs = Some b \<Longrightarrow> b \<in> set xs \<and> P b"
  by (induction xs) (auto split: if_splits)

lemma all_assets_append: "all_assets (xs @ ys) = all_assets xs @ all_assets ys"
  by (simp add: all_assets_def)

lemma all_assets_Cons: "all_assets (x # xs) = assets x @ all_assets xs"
  by (simp add: all_assets_def)

lemma without_asset_noop:
  "aid \<notin> asset_id ` set (all_assets rs) \<Longrightarrow> map (without_asset aid) rs = rs"
proof (induction rs)
  case Nil
  then show ?case by simp
next
  case (Cons x rs)
  then have "filter (\<lambda>b. asset_id b \<noteq> aid) (assets x) = assets x"
    by (auto simp: all_assets_Cons filter_id_conv)
  then have "without_asset aid x = x" by (simp add: without_asset_def)
  moreover have "map (without_asset aid) rs = rs"
    using Cons by (auto simp: all_assets_Cons)
  ultimately show ?case by simp
qed

lemma all_assets_without: "set (all_assets (map (without_asset aid) rs)) \<subseteq> set (all_assets rs)"
  by (induction rs) (auto simp: all_assets_def without_asset_def)

lemma reconciled_other: "tag_name x \<noteq> bv \<Longrightarrow> reconciled bv bn x = x"
  by (simp add: reconciled_def)

lemma reconciled_none:
  "find (\<lambda>b. asset_name b = bn) (assets x) = None \<Longrightarrow> reconciled bv bn x = x"
  by (simp add: reconciled_def)

lemma reconciled_some:
  "tag_name x = bv \<Longrightarrow> find (\<lambda>b. asset_name b = bn) (assets x) = Some b \<Longrightarrow>
   reconciled bv bn x = without_asset (asset_id b) x"
  by (simp add: reconciled_def)

lemma delete_requests_Nil: "delete_requests owner bv bn [] = []"
  by (simp add: delete_requests_def)

lemma delete_requests_Cons:
  "delete_requests owner bv bn (x # xs) =
     (if tag_name x = bv
      then (case find (\<lambda>b. asset_name b = bn) (assets x) of
              None \<Rightarrow> []
            | Some b \<Rightarrow> [DeleteAsset owner (asset_id b) bv])
      else []) @ delete_requests owner bv bn xs"
  by (simp add: delete_requests_def)

lemma last_url_Nil: "last_url bv [] u = u"
  by (simp add: last_url_def)

lemma last_url_Cons:
  "last_url bv (x # xs) u = (if tag_name x = bv then last_url bv xs (Some (upload_url x)) else last_url bv xs u)"
  by (simp add: last_url_def split: list.splits)

lemma all_assets_without_eq:
  "all_assets (map (without_asset aid) rs) = filter (\<lambda>b. asset_id b \<noteq> aid) (all_assets rs)"
  by (induction rs) (simp_all add: all_assets_def without_asset_def)

lemma release_id_without [simp]: "release_id (without_asset aid x) = release_id x"
  by (simp add: without_asset_def)

lemma upload_url_without [simp]: "upload_url (without_asset aid x) = upload_url x"
  by (simp add: without_asset_def)

lemma tag_name_without [simp]: "tag_name (without_asset aid x) = tag_name x"
  by (simp add: without_asset_def)

lemma wf_remote_received: "wf_remote (received q r) = wf_remote r"
  by (simp add: wf_remote_def received_def)

lemma wf_remote_delete:
  assumes "wf_remote r"
  shows "wf_remote (r\<lparr>releases := map (without_asset aid) (releases r)\<rparr>)"
proof -
  have "map release_id (map (without_asset aid) (releases r)) = map release_id (releases r)"
    by simp
  moreover have "list_all (\<lambda>x. upload_url x = upload_url_of (release_id x) \<and> release_id x < next_id r)
          (map (without_asset aid) (releases r))"
    using assms by (simp add: wf_remote_def list_all_iff)
  ultimately show ?thesis
    using assms
    by (simp add: wf_remote_def all_assets_without_eq distinct_map_filter list_all_iff del: map_map)
qed

text \<open>
  The outer loop, on a remote that serves every request and whose asset ids are all
  different. \<open>pre\<close> are the releases of the listing already passed, \<open>suf\<close> those still to
  come.
\<close>

lemma release_loop_ok:
  assumes "wf_remote (env w)" and "faults (env w) = []" and "releases (env w) = pre @ suf"
  shows "\<exists>w'. release_loop a bv bn suf u w = (Inr (last_url bv suf u), w')
           \<and> releases (env w') = pre @ map (reconciled bv bn) suf
           \<and> requests (env w') = requests (env w) @ delete_requests (gh_org a) bv bn suf
           \<and> faults (env w') = [] \<and> next_id (env w') = next_id (env w)
           \<and> wf_remote (env w')"
  using assms
proof (induction suf arbitrary: pre u w)
  case Nil
  then show ?case by (simp add: last_url_Nil delete_requests_Nil)
next
  case (Cons x suf)
  show ?case
  proof (cases "tag_name x = bv")
    case False
    from Cons.prems have "\<exists>w'. release_loop a bv bn suf u w = (Inr (last_url bv suf u), w')
           \<and> releases (env w') = (pre @ [x]) @ map (reconciled bv bn) suf
           \<and> requests (env w') = requests (env w) @ delete_requests (gh_org a) bv bn suf
           \<and> faults (env w') = [] \<and> next_id (env w') = next_id (env w)
           \<and> wf_remote (env w')"
      by (intro Cons.IH) simp_all
    with False show ?thesis
      by (simp add: last_url_Cons delete_requests_Cons reconciled_other)
  next
    case True
    let ?w1 = "py_print (''Version '' @ bv @ '' already released.'') w"
    have lu: "last_url bv (x # suf) u = last_url bv suf (Some (upload_url x))"
      using True by (simp add: last_url_Cons)
    show ?thesis
    proof (cases "find (\<lambda>b. asset_name b = bn) (assets x)")
      case None
      have "\<exists>w'. release_loop a bv bn suf (Some (upload_url x)) ?w1
                   = (Inr (last_url bv suf (Some (upload_url x))), w')
           \<and> releases (env w') = (pre @ [x]) @ map (reconciled bv bn) suf
           \<and> requests (env w') = requests (env ?w1) @ delete_requests (gh_org a) bv bn suf
           \<and> faults (env w') = [] \<and> next_id (env w') = next_id (env ?w1)
           \<and> wf_remote (env w')"
        using Cons.prems by (intro Cons.IH) (simp_all add: env_py_print)
      with True None lu show ?thesis
        by (simp add: delete_loop_find delete_requests_Cons reconciled_none env_py_print)
    next
      case (Some b)
      then have b: "b \<in> set (assets x)" by (auto dest: find_Some_mem)
      let ?wp = "py_print (''Deleting '' @ bn @ '' on GitHub.'') ?w1"
      let ?r = "env w"
      have ex: "list_ex (\<lambda>y. list_ex (\<lambda>c. asset_id c = asset_id b) (assets y)) (releases ?r)"
        using b Cons.prems(3) by (auto simp: list_ex_iff)
      let ?r' = "(received (DeleteAsset (gh_org a) (asset_id b) bv) ?r)
                   \<lparr>releases := map (without_asset (asset_id b)) (releases ?r)\<rparr>"
      let ?w2 = "?wp\<lparr>env := ?r'\<rparr>"
      have del: "delete_loop a bv bn (assets x) ?w1 = (Inr (), ?w2)"
        using Some requests_delete_ok[OF Cons.prems(2) ex, of "gh_org a" bv]
        by (simp add: delete_loop_find request_on_def env_py_print ok_response_def)
      have dist: "distinct (map asset_id (all_assets pre @ assets x @ all_assets suf))"
        using Cons.prems(1,3) by (simp add: wf_remote_def all_assets_append all_assets_Cons)
      have "asset_id b \<notin> asset_id ` set (all_assets pre)"
        using dist b by auto
      then have pre: "map (without_asset (asset_id b)) pre = pre" by (rule without_asset_noop)
      have "asset_id b \<notin> asset_id ` set (all_assets suf)"
        using dist b by auto
      then have suf: "map (without_asset (asset_id b)) suf = suf" by (rule without_asset_noop)
      have rel: "releases (env ?w2) = (pre @ [without_asset (asset_id b) x]) @ suf"
        using Cons.prems(3) pre suf by simp
      have "wf_remote (received (DeleteAsset (gh_org a) (asset_id b) bv) ?r)"
        using Cons.prems(1) by (simp add: wf_remote_received)
      then have "wf_remote ((received (DeleteAsset (gh_org a) (asset_id b) bv) ?r)
                   \<lparr>releases := map (without_asset (asset_id b))
                       (releases (received (DeleteAsset (gh_org a) (asset_id b) bv) ?r))\<rparr>)"
        by (rule wf_remote_delete)
      then have wf': "wf_remote (env ?w2)" by (simp add: received_def)
      have "\<exists>w'. release_loop a bv bn suf (Some (upload_url x)) ?w2
                   = (Inr (last_url bv suf (Some (upload_url x))), w')
           \<and> releases (env w') = (pre @ [without_asset (asset_id b) x]) @ map (reconciled bv bn) suf
           \<and> requests (env w') = requests (env ?w2) @ delete_requests (gh_org a) bv bn suf
           \<and> faults (env w') = [] \<and> next_id (env w') = next_id (env ?w2)
           \<and> wf_remote (env w')"
        using Cons.prems(2) rel wf' by (intro Cons.IH) (simp_all add: received_def)
      with True Some lu del show ?thesis
        by (simp add: delete_requests_Cons reconciled_some received_def env_py_print)
    qed
  qed
qed


section \<open>A run of the upload on a well-formed remote\<close>

lemma release_id_reconciled [simp]: "release_id (reconciled bv bn x) = release_id x"
  by (simp add: reconciled_def split: option.splits)

lemma upload_url_reconciled [simp]: "upload_url (reconciled bv bn x) = upload_url x"
  by (simp add: reconciled_def split: option.splits)

lemma tag_name_reconciled [simp]: "tag_name (reconciled bv bn x) = tag_name x"
  by (simp add: reconciled_def split: option.splits)

lemma release_id_published [simp]: "release_id (published bv bn t new x) = release_id x"
  by (simp add: published_def)

lemma upload_url_published [simp]: "upload_url (published bv bn t new x) = upload_url x"
  by (simp add: published_def)

lemma tag_name_published [simp]: "tag_name (published bv bn t new x) = tag_name x"
  by (simp add: published_def)

text \<open>In a well-formed remote an endpoint addresses one release.\<close>

lemma wf_endpoint_eq:
  assumes "wf_remote r" and "x \<in> set (releases r)" and "y \<in> set (releases r)"
  shows "endpoint (upload_url y) = endpoint (upload_url x) \<longleftrightarrow> release_id y = release_id x"
proof -
  from assms have "upload_url x = upload_url_of (release_id x)" "upload_url y = upload_url_of (release_id y)"
    by (auto simp: wf_remote_def list_all_iff)
  then show ?thesis by (auto dest: endpoint_inj)
qed

lemma add_asset_no_match:
  "\<forall>y \<in> set ys. endpoint (upload_url y) \<noteq> url \<Longrightarrow> add_asset url a ys = ys"
  by (induction ys) auto

lemma add_asset_append:
  "\<forall>y \<in> set xs. endpoint (upload_url y) \<noteq> url \<Longrightarrow> add_asset url a (xs @ ys) = xs @ add_asset url a ys"
  by (induction xs) auto

lemma add_asset_map:
  "distinct (map (\<lambda>y. endpoint (upload_url y)) ys) \<Longrightarrow>
   add_asset url a ys =
     map (\<lambda>y. if endpoint (upload_url y) = url then y\<lparr>assets := assets y @ [a]\<rparr> else y) ys"
proof (induction ys)
  case Nil
  then show ?case by simp
next
  case (Cons x ys)
  show ?case
  proof (cases "endpoint (upload_url x) = url")
    case True
    from Cons.prems have "endpoint (upload_url x) \<notin> (\<lambda>y. endpoint (upload_url y)) ` set ys"
      by simp
    with True have "\<forall>y \<in> set ys. endpoint (upload_url y) \<noteq> url" by (metis imageI)
    then have "map (\<lambda>y. if endpoint (upload_url y) = url then y\<lparr>assets := assets y @ [a]\<rparr> else y) ys = ys"
      by (intro map_idI) auto
    with True show ?thesis by simp
  next
    case False
    with Cons show ?thesis by simp
  qed
qed

lemma wf_distinct_endpoints:
  assumes "wf_remote r"
  shows "distinct (map (\<lambda>y. endpoint (upload_url y)) (releases r))"
proof -
  from assms have d: "distinct (map release_id (releases r))" by (simp add: wf_remote_def)
  then have "distinct (releases r)" "inj_on release_id (set (releases r))"
    by (simp_all add: distinct_map)
  moreover have "inj_on (\<lambda>y. endpoint (upload_url y)) (set (releases r))"
  proof (rule inj_onI)
    fix x y assume "x \<in> set (releases r)" "y \<in> set (releases r)"
      and "endpoint (upload_url x) = endpoint (upload_url y)"
    then have "release_id x = release_id y" using wf_endpoint_eq[OF assms] by metis
    then show "x = y" using \<open>inj_on release_id (set (releases r))\<close> \<open>x \<in> _\<close> \<open>y \<in> _\<close>
      by (auto dest: inj_onD)
  qed
  ultimately show ?thesis by (simp add: distinct_map)
qed

text \<open>Adding an asset puts it somewhere into the list of all assets.\<close>

lemma all_assets_add_asset:
  "list_ex (\<lambda>y. endpoint (upload_url y) = url) ys \<Longrightarrow>
   \<exists>l r. all_assets ys = l @ r \<and> all_assets (add_asset url a ys) = l @ [a] @ r"
proof (induction ys)
  case Nil
  then show ?case by simp
next
  case (Cons x ys)
  show ?case
  proof (cases "endpoint (upload_url x) = url")
    case True
    have "all_assets (x # ys) = assets x @ all_assets ys"
      "all_assets (add_asset url a (x # ys)) = assets x @ [a] @ all_assets ys"
      using True by (simp_all add: all_assets_Cons)
    then show ?thesis by blast
  next
    case False
    with Cons obtain l r where "all_assets ys = l @ r" "all_assets (add_asset url a ys) = l @ [a] @ r"
      by auto
    then have "all_assets (x # ys) = (assets x @ l) @ r"
      "all_assets (add_asset url a (x # ys)) = (assets x @ l) @ [a] @ r"
      using False by (simp_all add: all_assets_Cons)
    then show ?thesis by blast
  qed
qed

lemma release_id_add_asset: "map release_id (add_asset url a ys) = map release_id ys"
  by (induction ys) auto

lemma upload_url_add_asset: "map upload_url (add_asset url a ys) = map upload_url ys"
  by (induction ys) auto

lemma list_all_add_asset:
  "list_all (\<lambda>x. upload_url x = upload_url_of (release_id x) \<and> release_id x < n) ys \<Longrightarrow>
   list_all (\<lambda>x. upload_url x = upload_url_of (release_id x) \<and> release_id x < Suc n)
     (add_asset url a ys)"
  by (induction ys) (auto simp: less_Suc_eq list_all_iff)

lemma wf_remote_post_asset:
  assumes "wf_remote r" and "list_ex (\<lambda>y. endpoint (upload_url y) = url) (releases r)"
  shows "wf_remote (r\<lparr>releases := add_asset url \<lparr>asset_name = nm, asset_id = next_id r, asset_data = data\<rparr>
                                      (releases r),
                      next_id := Suc (next_id r)\<rparr>)"
proof -
  let ?a = "\<lparr>asset_name = nm, asset_id = next_id r, asset_data = data\<rparr>"
  let ?ys = "add_asset url ?a (releases r)"
  obtain l r' where lr: "all_assets (releases r) = l @ r'" "all_assets ?ys = l @ [?a] @ r'"
    using all_assets_add_asset[OF assms(2)] by blast
  have bound: "\<forall>b \<in> set (l @ r'). asset_id b < next_id r"
    using assms(1) lr(1) by (simp add: wf_remote_def list_all_iff)
  have dist: "distinct (map asset_id (l @ r'))"
    using assms(1) lr(1) by (simp add: wf_remote_def)
  have d': "distinct (map asset_id (all_assets ?ys))"
    using dist bound unfolding lr(2) by auto
  have b': "list_all (\<lambda>b. asset_id b < Suc (next_id r)) (all_assets ?ys)"
    using bound unfolding lr(2) by (auto simp: list_all_iff less_Suc_eq)
  have ids: "distinct (map release_id ?ys)"
    using assms(1) by (simp add: release_id_add_asset wf_remote_def)
  have "list_all (\<lambda>x. upload_url x = upload_url_of (release_id x) \<and> release_id x < next_id r) (releases r)"
    using assms(1) by (simp add: wf_remote_def)
  then have urls: "list_all (\<lambda>x. upload_url x = upload_url_of (release_id x) \<and> release_id x < Suc (next_id r)) ?ys"
    by (rule list_all_add_asset)
  show ?thesis using d' b' ids urls by (simp add: wf_remote_def)
qed

lemma last_url_found:
  "filter (\<lambda>x. tag_name x = bv) xs \<noteq> [] \<Longrightarrow>
   last_url bv xs u = Some (upload_url (last (filter (\<lambda>x. tag_name x = bv) xs)))"
  by (cases "filter (\<lambda>x. tag_name x = bv) xs") (simp_all add: last_url_def)

lemma last_url_none: "filter (\<lambda>x. tag_name x = bv) xs = [] \<Longrightarrow> last_url bv xs u = u"
  by (simp add: last_url_def)

lemma last_filter_mem: "filter P xs \<noteq> [] \<Longrightarrow> last (filter P xs) \<in> set xs \<and> P (last (filter P xs))"
  using last_in_set[of "filter P xs"] by auto

lemma UploadLlvm_reconcile:
  assumes wf: "wf_remote (env w)" and nf: "faults (env w) = []"
    and ex: "filter (\<lambda>x. tag_name x = GetBundleVersion a) (releases (env w)) \<noteq> []"
  shows "\<exists>w'. UploadLlvm a path data w = (Inr (), w')
    \<and> releases (env w') =
        map (published (GetBundleVersion a) (basename path)
               (release_id (last (filter (\<lambda>x. tag_name x = GetBundleVersion a) (releases (env w)))))
               \<lparr>asset_name = basename path, asset_id = next_id (env w), asset_data = data\<rparr>)
            (releases (env w))
    \<and> requests (env w') =
        requests (env w) @ GetReleases (gh_org a)
          # delete_requests (gh_org a) (GetBundleVersion a) (basename path) (releases (env w))
          @ [PostAsset (endpoint (upload_url (last (filter (\<lambda>x. tag_name x = GetBundleVersion a)
                                                      (releases (env w))))))
               (basename path) data]
    \<and> faults (env w') = [] \<and> next_id (env w') = Suc (next_id (env w)) \<and> wf_remote (env w')"
proof -
  let ?bv = "GetBundleVersion a" and ?bn = "basename path" and ?rs = "releases (env w)"
  let ?x = "last (filter (\<lambda>x. tag_name x = ?bv) ?rs)"
  let ?new = "\<lparr>asset_name = ?bn, asset_id = next_id (env w), asset_data = data\<rparr>"
  let ?url = "endpoint (upload_url ?x)"
  let ?w1 = "w\<lparr>env := received (GetReleases (gh_org a)) (env w)\<rparr>"
  have get: "request_on (requests_get (gh_org a)) w = (ok_response 200 ?rs [], ?w1)"
    using nf by (simp add: request_on_def requests_get_ok)
  have wf1: "wf_remote (env ?w1)" using wf by (simp add: wf_remote_received)
  have nf1: "faults (env ?w1) = []" using nf by (simp add: received_def)
  have rs1: "releases (env ?w1) = [] @ ?rs" by (simp add: received_def)
  obtain w2 where loop: "release_loop a ?bv ?bn ?rs None ?w1 = (Inr (last_url ?bv ?rs None), w2)"
    and rs2: "releases (env w2) = map (reconciled ?bv ?bn) ?rs"
    and rq2: "requests (env w2) = requests (env ?w1) @ delete_requests (gh_org a) ?bv ?bn ?rs"
    and nf2: "faults (env w2) = []" and id2: "next_id (env w2) = next_id (env ?w1)"
    and wf2: "wf_remote (env w2)"
    using release_loop_ok[OF wf1 nf1 rs1, of a ?bv ?bn None] by auto
  have found: "last_url ?bv ?rs None = Some (upload_url ?x)" using ex by (rule last_url_found)
  have xmem: "?x \<in> set ?rs" using last_filter_mem[OF ex] by simp
  then have "upload_url ?x = upload_url_of (release_id ?x)"
    using wf by (auto simp: wf_remote_def list_all_iff)
  then have nonempty: "upload_url ?x \<noteq> []" by (simp add: upload_url_of_nonempty)
  let ?w3 = "py_print (''Uploading '' @ ?bn @ '' on GitHub.'') w2"
  have ex3: "list_ex (\<lambda>y. endpoint (upload_url y) = ?url) (releases (env w2))"
    using xmem by (auto simp: rs2 list_ex_iff)
  let ?r4 = "(received (PostAsset ?url ?bn data) (env w2))
        \<lparr>releases := add_asset ?url \<lparr>asset_name = ?bn, asset_id = next_id (env w2), asset_data = data\<rparr>
                        (releases (env w2)),
         next_id := Suc (next_id (env w2))\<rparr>"
  have post: "request_on (requests_post_asset ?url ?bn data) ?w3 = (ok_response 201 [] [], ?w3\<lparr>env := ?r4\<rparr>)"
    using requests_post_asset_ok[OF nf2 ex3] by (simp add: request_on_def env_py_print)
  have run: "UploadLlvm a path data w = (Inr (), ?w3\<lparr>env := ?r4\<rparr>)"
    using get loop found nonempty post
    by (simp add: UploadLlvm_def ok_response_def Let_def endpoint_def)
  have de: "distinct (map (\<lambda>y. endpoint (upload_url y)) (releases (env w2)))"
    using wf2 by (rule wf_distinct_endpoints)
  have id2': "next_id (env w2) = next_id (env w)" using id2 by (simp add: received_def)
  have "add_asset ?url ?new (map (reconciled ?bv ?bn) ?rs)
        = map (published ?bv ?bn (release_id ?x) ?new) ?rs"
  proof -
    have "add_asset ?url ?new (map (reconciled ?bv ?bn) ?rs)
          = map (\<lambda>y. if endpoint (upload_url y) = ?url then y\<lparr>assets := assets y @ [?new]\<rparr> else y)
              (map (reconciled ?bv ?bn) ?rs)"
      using de unfolding rs2 by (rule add_asset_map)
    also have "\<dots> = map (published ?bv ?bn (release_id ?x) ?new) ?rs"
      using wf_endpoint_eq[OF wf xmem] by (simp add: published_def)
    finally show ?thesis .
  qed
  then have rel4: "releases ?r4 = map (published ?bv ?bn (release_id ?x) ?new) ?rs"
    by (simp add: rs2 id2' received_def)
  have rq4: "requests ?r4 = requests (env w) @ GetReleases (gh_org a)
          # delete_requests (gh_org a) ?bv ?bn ?rs @ [PostAsset ?url ?bn data]"
    by (simp add: rq2 received_def)
  have "wf_remote (received (PostAsset ?url ?bn data) (env w2))"
    using wf2 by (simp add: wf_remote_received)
  moreover have "list_ex (\<lambda>y. endpoint (upload_url y) = ?url)
                   (releases (received (PostAsset ?url ?bn data) (env w2)))"
    using ex3 by (simp add: received_def)
  ultimately have "wf_remote ((received (PostAsset ?url ?bn data) (env w2))
        \<lparr>releases := add_asset ?url
             \<lparr>asset_name = ?bn, asset_id = next_id (received (PostAsset ?url ?bn data) (env w2)),
              asset_data = data\<rparr>
             (releases (received (PostAsset ?url ?bn data) (env w2))),
         next_id := Suc (next_id (received (PostAsset ?url ?bn data) (env w2)))\<rparr>)"
    by (rule wf_remote_post_asset)
  then have wf4: "wf_remote ?r4" by (simp add: received_def)
  have "faults ?r4 = []" using nf2 by (simp add: received_def)
  moreover have "next_id ?r4 = Suc (next_id (env w))" using id2' by (simp add: received_def)
  ultimately show ?thesis using run rel4 rq4 wf4 by simp
qed

lemma wf_remote_post_release:
  assumes "wf_remote r"
  shows "wf_remote (r\<lparr>releases := releases r @
            [\<lparr>tag_name = tag, upload_url = upload_url_of (next_id r), assets = [],
              release_id = next_id r, release_name = nm, release_body = body, prerelease = pre\<rparr>],
         next_id := Suc (next_id r)\<rparr>)"
proof -
  have "next_id r \<notin> release_id ` set (releases r)"
    using assms by (auto simp: wf_remote_def list_all_iff)
  then show ?thesis
    using assms by (auto simp: wf_remote_def list_all_iff all_assets_append all_assets_Cons
        all_assets_def less_Suc_eq)
qed

lemma no_tag_reconciled:
  "filter (\<lambda>x. tag_name x = bv) xs = [] \<Longrightarrow> map (reconciled bv bn) xs = xs"
  by (intro map_idI) (auto simp: filter_empty_conv reconciled_other)

lemma no_tag_delete_requests:
  "filter (\<lambda>x. tag_name x = bv) xs = [] \<Longrightarrow> delete_requests owner bv bn xs = []"
  by (induction xs) (auto simp: delete_requests_Nil delete_requests_Cons split: if_splits)

lemma UploadLlvm_create:
  assumes wf: "wf_remote (env w)" and nf: "faults (env w) = []"
    and none: "filter (\<lambda>x. tag_name x = GetBundleVersion a) (releases (env w)) = []"
  shows "\<exists>w' y. UploadLlvm a path data w = (Inr (), w')
    \<and> releases (env w') = releases (env w) @ [y]
    \<and> tag_name y = GetBundleVersion a
    \<and> assets y = [\<lparr>asset_name = basename path, asset_id = Suc (next_id (env w)), asset_data = data\<rparr>]
    \<and> prerelease y = (release_candidate a \<noteq> None)
    \<and> release_name y =
         (case release_candidate a of
            Some n \<Rightarrow> if n \<noteq> 0 then ''LLVM and Clang '' @ version a @ '' RC'' @ str_int n
                      else ''LLVM and Clang '' @ version a
          | None \<Rightarrow> ''LLVM and Clang '' @ version a)
    \<and> requests (env w') =
        requests (env w) @
          [GetReleases (gh_org a),
           PostRelease (gh_org a) (GetBundleVersion a) (release_name y) (release_body y) (prerelease y),
           PostAsset (endpoint (upload_url y)) (basename path) data]
    \<and> faults (env w') = [] \<and> next_id (env w') = Suc (Suc (next_id (env w))) \<and> wf_remote (env w')"
proof -
  let ?bv = "GetBundleVersion a" and ?bn = "basename path" and ?rs = "releases (env w)"
  let ?n = "next_id (env w)"
  let ?nm = "(case release_candidate a of
            Some n \<Rightarrow> if n \<noteq> 0 then ''LLVM and Clang '' @ version a @ '' RC'' @ str_int n
                      else ''LLVM and Clang '' @ version a
          | None \<Rightarrow> ''LLVM and Clang '' @ version a)"
  let ?body = "?nm @ '' without realtime, terminfo, and zlib dependencies.''"
  let ?pre = "release_candidate a \<noteq> None"
  let ?y0 = "\<lparr>tag_name = ?bv, upload_url = upload_url_of ?n, assets = [],
              release_id = ?n, release_name = ?nm, release_body = ?body, prerelease = ?pre\<rparr>"
  let ?new = "\<lparr>asset_name = ?bn, asset_id = Suc ?n, asset_data = data\<rparr>"
  let ?url = "endpoint (upload_url_of ?n)"
  let ?w1 = "w\<lparr>env := received (GetReleases (gh_org a)) (env w)\<rparr>"
  have get: "request_on (requests_get (gh_org a)) w = (ok_response 200 ?rs [], ?w1)"
    using nf by (simp add: request_on_def requests_get_ok)
  have wf1: "wf_remote (env ?w1)" using wf by (simp add: wf_remote_received)
  have nf1: "faults (env ?w1) = []" using nf by (simp add: received_def)
  have rs1: "releases (env ?w1) = [] @ ?rs" by (simp add: received_def)
  obtain w2 where loop: "release_loop a ?bv ?bn ?rs None ?w1 = (Inr (last_url ?bv ?rs None), w2)"
    and rs2: "releases (env w2) = map (reconciled ?bv ?bn) ?rs"
    and rq2: "requests (env w2) = requests (env ?w1) @ delete_requests (gh_org a) ?bv ?bn ?rs"
    and nf2: "faults (env w2) = []" and id2: "next_id (env w2) = next_id (env ?w1)"
    and wf2: "wf_remote (env w2)"
    using release_loop_ok[OF wf1 nf1 rs1, of a ?bv ?bn None] by auto
  have found: "last_url ?bv ?rs None = None" using none by (rule last_url_none)
  have rs2': "releases (env w2) = ?rs" using none by (simp add: rs2 no_tag_reconciled)
  have rq2': "requests (env w2) = requests (env w) @ [GetReleases (gh_org a)]"
    using none by (simp add: rq2 no_tag_delete_requests received_def)
  have id2': "next_id (env w2) = ?n" using id2 by (simp add: received_def)
  let ?wc = "py_print (''Releasing '' @ ?bv @ '' on GitHub.'') w2"
  let ?r3 = "(received (PostRelease (gh_org a) ?bv ?nm ?body ?pre) (env w2))
        \<lparr>releases := ?rs @ [?y0], next_id := Suc ?n\<rparr>"
  let ?w3 = "?wc\<lparr>env := ?r3\<rparr>"
  have create: "create_release a ?bv w2 = (Inr (upload_url_of ?n), ?w3)"
    using requests_post_release_ok[OF nf2, of "gh_org a" ?bv ?nm ?body ?pre]
    by (simp add: create_release_def request_on_def env_py_print ok_response_def rs2' id2' Let_def)
  have wf3: "wf_remote ?r3"
  proof -
    have "wf_remote (received (PostRelease (gh_org a) ?bv ?nm ?body ?pre) (env w2))"
      using wf2 by (simp add: wf_remote_received)
    from wf_remote_post_release[OF this, of ?bv ?nm ?body ?pre]
    show ?thesis by (simp add: received_def rs2' id2')
  qed
  have nf3: "faults ?r3 = []" using nf2 by (simp add: received_def)
  have fresh: "\<forall>y \<in> set ?rs. endpoint (upload_url y) \<noteq> ?url"
  proof
    fix y assume y: "y \<in> set ?rs"
    then have "upload_url y = upload_url_of (release_id y)" "release_id y < ?n"
      using wf by (auto simp: wf_remote_def list_all_iff)
    then show "endpoint (upload_url y) \<noteq> ?url" by (auto dest: endpoint_inj)
  qed
  have ex3: "list_ex (\<lambda>y. endpoint (upload_url y) = ?url) (releases ?r3)"
    by (simp add: received_def)
  let ?wu = "py_print (''Uploading '' @ ?bn @ '' on GitHub.'') ?w3"
  let ?r4 = "(received (PostAsset ?url ?bn data) ?r3)
        \<lparr>releases := add_asset ?url \<lparr>asset_name = ?bn, asset_id = next_id ?r3, asset_data = data\<rparr>
                        (releases ?r3),
         next_id := Suc (next_id ?r3)\<rparr>"
  have post: "request_on (requests_post_asset ?url ?bn data) ?wu = (ok_response 201 [] [], ?wu\<lparr>env := ?r4\<rparr>)"
    using requests_post_asset_ok[OF nf3 ex3] by (simp add: request_on_def env_py_print)
  have run: "UploadLlvm a path data w = (Inr (), ?wu\<lparr>env := ?r4\<rparr>)"
    using get loop found create post
    by (simp add: UploadLlvm_def ok_response_def Let_def endpoint_def)
  have rel4: "releases ?r4 = ?rs @ [?y0\<lparr>assets := [?new]\<rparr>]"
    using fresh by (simp add: received_def add_asset_append)
  have rq4: "requests ?r4 = requests (env w) @
          [GetReleases (gh_org a), PostRelease (gh_org a) ?bv ?nm ?body ?pre, PostAsset ?url ?bn data]"
    by (simp add: received_def rq2')
  have wf4: "wf_remote ?r4"
  proof -
    have "wf_remote (received (PostAsset ?url ?bn data) ?r3)"
      using wf3 by (simp add: wf_remote_received)
    moreover have "list_ex (\<lambda>y. endpoint (upload_url y) = ?url)
                     (releases (received (PostAsset ?url ?bn data) ?r3))"
      by (simp add: received_def)
    ultimately have "wf_remote ((received (PostAsset ?url ?bn data) ?r3)
        \<lparr>releases := add_asset ?url
             \<lparr>asset_name = ?bn, asset_id = next_id (received (PostAsset ?url ?bn data) ?r3),
              asset_data = data\<rparr>
             (releases (received (PostAsset ?url ?bn data) ?r3)),
         next_id := Suc (next_id (received (PostAsset ?url ?bn data) ?r3))\<rparr>)"
      by (rule wf_remote_post_asset)
    then show ?thesis by (simp add: received_def)
  qed
  have nf4: "faults ?r4 = []" using nf2 by (simp add: received_def)
  have id4: "next_id ?r4 = Suc (Suc ?n)" by (simp add: received_def)
  show ?thesis
    using run rel4 rq4 wf4 nf4 id4
    by (intro exI[of _ "?wu\<lparr>env := ?r4\<rparr>"] exI[of _ "?y0\<lparr>assets := [?new]\<rparr>"]) simp
qed

lemma filter_after_first:
  "find P xs = Some b \<Longrightarrow> distinct (map f xs) \<Longrightarrow>
   filter P (filter (\<lambda>c. f c \<noteq> f b) xs) = tl (filter P xs)"
proof (induction xs)
  case Nil
  then show ?case by simp
next
  case (Cons x xs)
  show ?case
  proof (cases "P x")
    case True
    with Cons.prems have bx: "b = x" by simp
    from Cons.prems have "f x \<notin> f ` set xs" by simp
    then have "\<forall>c \<in> set xs. f c \<noteq> f x" by (metis imageI)
    then have "filter (\<lambda>c. f c \<noteq> f x) xs = xs" by (simp add: filter_id_conv)
    with True bx show ?thesis by simp
  next
    case False
    with Cons show ?thesis by simp
  qed
qed

lemma find_None_filter: "find P xs = None \<Longrightarrow> filter P xs = []"
  by (induction xs) (auto split: if_splits)

lemma find_hd_filter: "find P xs = Some b \<Longrightarrow> \<exists>rest. filter P xs = b # rest"
  by (induction xs) (auto split: if_splits)

lemma distinct_assets_of:
  assumes "wf_remote r" and "y \<in> set (releases r)"
  shows "distinct (map asset_id (assets y))"
proof -
  from assms(2) obtain p q where "releases r = p @ y # q" by (auto dest: split_list)
  then have "all_assets (releases r) = all_assets p @ assets y @ all_assets q"
    by (simp add: all_assets_append all_assets_Cons)
  with assms(1) show ?thesis by (simp add: wf_remote_def)
qed

text \<open>Reconciling a release with the wanted tag drops its first asset of the wanted name.\<close>

lemma named_assets_reconciled:
  assumes "distinct (map asset_id (assets y))" and "tag_name y = bv"
  shows "named_assets bn (reconciled bv bn y) = tl (named_assets bn y)"
proof (cases "find (\<lambda>b. asset_name b = bn) (assets y)")
  case None
  then show ?thesis by (simp add: reconciled_none named_assets_def find_None_filter)
next
  case (Some b)
  with assms filter_after_first[OF Some assms(1)] show ?thesis
    by (simp add: reconciled_some named_assets_def without_asset_def)
qed

lemma named_assets_published:
  assumes "distinct (map asset_id (assets y))" and "tag_name y = bv" and "asset_name new = bn"
  shows "named_assets bn (published bv bn t new y) =
           tl (named_assets bn y) @ (if release_id y = t then [new] else [])"
proof -
  have "named_assets bn ((reconciled bv bn y)\<lparr>assets := assets (reconciled bv bn y) @ [new]\<rparr>)
        = named_assets bn (reconciled bv bn y) @ [new]"
    using assms(3) by (simp add: named_assets_def)
  then show ?thesis
    using named_assets_reconciled[OF assms(1,2)] by (simp add: published_def)
qed

subsection \<open>Reconciling deletes the first match only\<close>

text \<open>
  C3, as the code has it. On a well-formed remote that serves every request and has a
  release with the wanted tag, the run succeeds and sends, after the listing, one delete
  request for each release with the tag that has an asset of the bundle's name, for the
  first such asset only (the \<^verbatim>\<open>break\<close>), and then the upload. Every release with the
  tag keeps its other assets of that name, in order; the release the upload is
  addressed to gets the new asset appended. So a release with the tag that had at most
  one asset of the name has at most one afterwards, and the release that receives the
  upload has exactly as many as before when it had more than one.
\<close>

theorem UploadLlvm_deletes_first_match:
  assumes "wf_remote (env w)" and "faults (env w) = []"
    and "filter (\<lambda>x. tag_name x = GetBundleVersion a) (releases (env w)) \<noteq> []"
  shows "\<exists>w'. UploadLlvm a path data w = (Inr (), w')
    \<and> requests (env w') =
        requests (env w) @ GetReleases (gh_org a)
          # delete_requests (gh_org a) (GetBundleVersion a) (basename path) (releases (env w))
          @ [PostAsset (endpoint (upload_url (last (filter (\<lambda>x. tag_name x = GetBundleVersion a)
                                                      (releases (env w))))))
               (basename path) data]
    \<and> length (releases (env w')) = length (releases (env w))
    \<and> (\<forall>i < length (releases (env w)).
          tag_name (releases (env w) ! i) = GetBundleVersion a \<longrightarrow>
            tag_name (releases (env w') ! i) = GetBundleVersion a
          \<and> named_assets (basename path) (releases (env w') ! i) =
              tl (named_assets (basename path) (releases (env w) ! i))
              @ (if release_id (releases (env w) ! i) =
                     release_id (last (filter (\<lambda>x. tag_name x = GetBundleVersion a) (releases (env w))))
                 then [\<lparr>asset_name = basename path, asset_id = next_id (env w), asset_data = data\<rparr>]
                 else [])
          \<and> (length (named_assets (basename path) (releases (env w) ! i)) \<le> 1 \<longrightarrow>
               length (named_assets (basename path) (releases (env w') ! i)) \<le> 1))"
proof -
  let ?bv = "GetBundleVersion a" and ?bn = "basename path" and ?rs = "releases (env w)"
  let ?x = "last (filter (\<lambda>x. tag_name x = ?bv) ?rs)"
  let ?new = "\<lparr>asset_name = ?bn, asset_id = next_id (env w), asset_data = data\<rparr>"
  obtain w' where run: "UploadLlvm a path data w = (Inr (), w')"
    and rel: "releases (env w') = map (published ?bv ?bn (release_id ?x) ?new) ?rs"
    and rq: "requests (env w') = requests (env w) @ GetReleases (gh_org a)
          # delete_requests (gh_org a) ?bv ?bn ?rs @ [PostAsset (endpoint (upload_url ?x)) ?bn data]"
    using UploadLlvm_reconcile[OF assms, of path data] by blast
  have each: "tag_name (releases (env w') ! i) = ?bv
          \<and> named_assets ?bn (releases (env w') ! i) =
              tl (named_assets ?bn (?rs ! i)) @ (if release_id (?rs ! i) = release_id ?x then [?new] else [])
          \<and> (length (named_assets ?bn (?rs ! i)) \<le> 1 \<longrightarrow>
               length (named_assets ?bn (releases (env w') ! i)) \<le> 1)"
    if i: "i < length ?rs" and tag: "tag_name (?rs ! i) = ?bv" for i
  proof -
    have mem: "?rs ! i \<in> set ?rs" using i by simp
    have d: "distinct (map asset_id (assets (?rs ! i)))"
      using assms(1) mem by (rule distinct_assets_of)
    have n: "named_assets ?bn (releases (env w') ! i) =
              tl (named_assets ?bn (?rs ! i)) @ (if release_id (?rs ! i) = release_id ?x then [?new] else [])"
      using i named_assets_published[OF d tag, of ?new ?bn "release_id ?x"] by (simp add: rel)
    then show ?thesis using i tag by (auto simp: rel)
  qed
  show ?thesis using run rq each by (auto simp: rel)
qed

theorem UploadLlvm_deletes_first_match_witness:
  "\<exists>w'. UploadLlvm example_args example_path ''NEW'' duplicated_remote = (Inr (), w')
    \<and> requests (env w') =
        requests (env duplicated_remote) @ GetReleases (gh_org example_args)
          # delete_requests (gh_org example_args) (GetBundleVersion example_args) (basename example_path)
              (releases (env duplicated_remote))
          @ [PostAsset (endpoint (upload_url (last (filter (\<lambda>x. tag_name x = GetBundleVersion example_args)
                                                      (releases (env duplicated_remote))))))
               (basename example_path) ''NEW'']
    \<and> length (releases (env w')) = length (releases (env duplicated_remote))
    \<and> (\<forall>i < length (releases (env duplicated_remote)).
          tag_name (releases (env duplicated_remote) ! i) = GetBundleVersion example_args \<longrightarrow>
            tag_name (releases (env w') ! i) = GetBundleVersion example_args
          \<and> named_assets (basename example_path) (releases (env w') ! i) =
              tl (named_assets (basename example_path) (releases (env duplicated_remote) ! i))
              @ (if release_id (releases (env duplicated_remote) ! i) =
                     release_id (last (filter (\<lambda>x. tag_name x = GetBundleVersion example_args)
                                        (releases (env duplicated_remote))))
                 then [\<lparr>asset_name = basename example_path, asset_id = next_id (env duplicated_remote),
                        asset_data = ''NEW''\<rparr>]
                 else [])
          \<and> (length (named_assets (basename example_path) (releases (env duplicated_remote) ! i)) \<le> 1 \<longrightarrow>
               length (named_assets (basename example_path) (releases (env w') ! i)) \<le> 1))"
proof (rule UploadLlvm_deletes_first_match)
  show "wf_remote (env duplicated_remote)" by code_simp
  show "faults (env duplicated_remote) = []" by code_simp
  show "filter (\<lambda>x. tag_name x = GetBundleVersion example_args) (releases (env duplicated_remote)) \<noteq> []"
    by code_simp
qed

text \<open>
  The claim as the specification states it fails when the release holds two assets of
  the bundle's name: one delete request is sent, for the first of them (id 2), and after
  the upload the release holds two assets of that name (ids 3 and 4).
\<close>

theorem UploadLlvm_duplicates_counterexample:
  "fst (UploadLlvm example_args example_path ''NEW'' duplicated_remote) = Inr ()
   \<and> requests (env (snd (UploadLlvm example_args example_path ''NEW'' duplicated_remote))) =
       [GetReleases ''ycm-core'', DeleteAsset ''ycm-core'' 2 ''18.1.0'',
        PostAsset ''https://uploads.github.com/releases/1/assets''
          ''clang+llvm-18.1.0-x86_64-unknown-linux-gnu.tar.xz'' ''NEW'']
   \<and> map (\<lambda>y. map asset_id (named_assets (basename example_path) y))
         (releases (env (snd (UploadLlvm example_args example_path ''NEW'' duplicated_remote))))
       = [[3, 4]]"
  by code_simp

subsection \<open>One run on a remote that satisfies the invariant\<close>

lemma filter_singleton_mem: "filter P xs = [x] \<Longrightarrow> x \<in> set xs \<and> P x"
proof -
  assume "filter P xs = [x]"
  then have "x \<in> set (filter P xs)" by simp
  then show ?thesis by simp
qed

lemma delete_requests_filter:
  "delete_requests owner bv bn xs = delete_requests owner bv bn (filter (\<lambda>x. tag_name x = bv) xs)"
  by (induction xs) (simp_all add: delete_requests_Nil delete_requests_Cons)

lemma delete_requests_single:
  assumes "tag_name x = bv" and "length (named_assets bn x) \<le> 1"
  shows "delete_requests owner bv bn [x] = map (\<lambda>b. DeleteAsset owner (asset_id b) bv) (named_assets bn x)"
proof (cases "find (\<lambda>b. asset_name b = bn) (assets x)")
  case None
  with assms show ?thesis
    by (simp add: delete_requests_Cons delete_requests_Nil named_assets_def find_None_filter)
next
  case (Some b)
  then obtain rest where "filter (\<lambda>b. asset_name b = bn) (assets x) = b # rest"
    by (auto dest: find_hd_filter)
  with assms Some show ?thesis
    by (simp add: delete_requests_Cons delete_requests_Nil named_assets_def)
qed

lemma filter_tag_published:
  "filter (\<lambda>x. tag_name x = bv') (map (published bv bn t new) xs)
     = map (published bv bn t new) (filter (\<lambda>x. tag_name x = bv') xs)"
  by (induction xs) simp_all

text \<open>
  One run on a remote where exactly one release has the tag and that release has at most
  one asset of the bundle's name.
\<close>

lemma publish_once_unique:
  assumes wf: "wf_remote (env w)" and nf: "faults (env w) = []"
    and uniq: "filter (\<lambda>x. tag_name x = GetBundleVersion a) (releases (env w)) = [x]"
    and one: "length (named_assets (basename path) x) \<le> 1"
  shows "\<exists>w' y b. UploadLlvm a path data w = (Inr (), w')
    \<and> wf_remote (env w') \<and> faults (env w') = []
    \<and> filter (\<lambda>x. tag_name x = GetBundleVersion a) (releases (env w')) = [y]
    \<and> named_assets (basename path) y = [b] \<and> asset_data b = data
    \<and> requests (env w') =
        requests (env w) @ GetReleases (gh_org a)
          # map (\<lambda>b. DeleteAsset (gh_org a) (asset_id b) (GetBundleVersion a))
              (named_assets (basename path) x)
          @ [PostAsset (endpoint (upload_url x)) (basename path) data]"
proof -
  let ?bv = "GetBundleVersion a" and ?bn = "basename path" and ?rs = "releases (env w)"
  let ?new = "\<lparr>asset_name = ?bn, asset_id = next_id (env w), asset_data = data\<rparr>"
  have ex: "filter (\<lambda>x. tag_name x = ?bv) ?rs \<noteq> []" using uniq by simp
  have lastx: "last (filter (\<lambda>x. tag_name x = ?bv) ?rs) = x" using uniq by simp
  obtain w' where run: "UploadLlvm a path data w = (Inr (), w')"
    and rel: "releases (env w') = map (published ?bv ?bn (release_id x) ?new) ?rs"
    and rq: "requests (env w') = requests (env w) @ GetReleases (gh_org a)
          # delete_requests (gh_org a) ?bv ?bn ?rs @ [PostAsset (endpoint (upload_url x)) ?bn data]"
    and nf': "faults (env w') = []" and wf': "wf_remote (env w')"
    using UploadLlvm_reconcile[OF wf nf ex, of path data] unfolding lastx by blast
  have xmem: "x \<in> set ?rs" and xtag: "tag_name x = ?bv"
    using filter_singleton_mem[OF uniq] by simp_all
  have d: "distinct (map asset_id (assets x))" using wf xmem by (rule distinct_assets_of)
  have tl0: "tl (named_assets ?bn x) = []" using one by (cases "named_assets ?bn x") simp_all
  have named: "named_assets ?bn (published ?bv ?bn (release_id x) ?new x) = [?new]"
    using named_assets_published[OF d xtag, of ?new ?bn "release_id x"] tl0 by simp
  have filt: "filter (\<lambda>x. tag_name x = ?bv) (releases (env w'))
                = [published ?bv ?bn (release_id x) ?new x]"
    by (simp add: rel filter_tag_published uniq)
  have dr: "delete_requests (gh_org a) ?bv ?bn ?rs
              = map (\<lambda>b. DeleteAsset (gh_org a) (asset_id b) ?bv) (named_assets ?bn x)"
    using delete_requests_filter[of "gh_org a" ?bv ?bn ?rs] delete_requests_single[OF xtag one]
    by (simp add: uniq)
  show ?thesis
    using run wf' nf' filt named rq dr
    by (intro exI[of _ w'] exI[of _ "published ?bv ?bn (release_id x) ?new x"] exI[of _ ?new]) simp
qed

lemma publish_once_create:
  assumes wf: "wf_remote (env w)" and nf: "faults (env w) = []"
    and none: "filter (\<lambda>x. tag_name x = GetBundleVersion a) (releases (env w)) = []"
  shows "\<exists>w' y b. UploadLlvm a path data w = (Inr (), w')
    \<and> wf_remote (env w') \<and> faults (env w') = []
    \<and> filter (\<lambda>x. tag_name x = GetBundleVersion a) (releases (env w')) = [y]
    \<and> named_assets (basename path) y = [b] \<and> asset_data b = data"
proof -
  obtain w' y where "UploadLlvm a path data w = (Inr (), w')"
    "releases (env w') = releases (env w) @ [y]" "tag_name y = GetBundleVersion a"
    "assets y = [\<lparr>asset_name = basename path, asset_id = Suc (next_id (env w)), asset_data = data\<rparr>]"
    "faults (env w') = []" "wf_remote (env w')"
    using UploadLlvm_create[OF assms, of path data] by blast
  then show ?thesis using none by (simp add: named_assets_def)
qed

subsection \<open>The invariant under every run\<close>

text \<open>
  The invariant is kept by every request, served or not, and so by every run.
\<close>

lemma wf_remote_cong:
  "releases r' = releases r \<Longrightarrow> next_id r' = next_id r \<Longrightarrow> wf_remote r' = wf_remote r"
  by (simp add: wf_remote_def)

lemma publish_invariant_cong:
  "releases r' = releases r \<Longrightarrow> next_id r' = next_id r \<Longrightarrow>
   publish_invariant bv bn r' = publish_invariant bv bn r"
  by (simp add: publish_invariant_def wf_remote_cong[of r' r])

lemma vacant_cong: "releases r' = releases r \<Longrightarrow> vacant bv bn r' = vacant bv bn r"
  by (simp add: vacant_def)

lemma named_assets_without:
  "named_assets bn (without_asset aid x) = filter (\<lambda>b. asset_id b \<noteq> aid) (named_assets bn x)"
  by (auto simp: named_assets_def without_asset_def intro: filter_cong)

lemma filter_tag_without:
  "filter (\<lambda>x. tag_name x = bv) (map (without_asset aid) xs)
     = map (without_asset aid) (filter (\<lambda>x. tag_name x = bv) xs)"
  by (induction xs) simp_all

lemma publish_invariant_delete:
  assumes "publish_invariant bv bn r"
  shows "publish_invariant bv bn (r\<lparr>releases := map (without_asset aid) (releases r)\<rparr>)"
proof -
  have "wf_remote (r\<lparr>releases := map (without_asset aid) (releases r)\<rparr>)"
    using assms by (simp add: publish_invariant_def wf_remote_delete)
  moreover have "length (filter (\<lambda>x. tag_name x = bv) (map (without_asset aid) (releases r))) \<le> 1"
    using assms by (simp add: publish_invariant_def filter_tag_without)
  moreover have "list_all (\<lambda>x. if tag_name x = bv then length (named_assets bn x) \<le> 1 else True)
                   (map (without_asset aid) (releases r))"
  proof -
    have "length (named_assets bn (without_asset aid x)) \<le> 1"
      if "length (named_assets bn x) \<le> 1" for x
      using that le_trans[OF length_filter_le] by (simp add: named_assets_without)
    then show ?thesis
      using assms by (auto simp: publish_invariant_def list_all_iff)
  qed
  ultimately show ?thesis by (simp add: publish_invariant_def)
qed

text \<open>Whatever it answers, a delete request leaves the invariant in place.\<close>

lemma publish_invariant_requests_delete:
  "publish_invariant bv bn r \<Longrightarrow> publish_invariant bv bn (snd (requests_delete owner aid tag r))"
proof -
  assume inv: "publish_invariant bv bn r"
  let ?r1 = "received (DeleteAsset owner aid tag) r"
  obtain f r2 where t: "take_fault ?r1 = (f, r2)" by (cases "take_fault ?r1")
  then have same: "releases r2 = releases r" "next_id r2 = next_id r"
    by (auto simp: take_fault_def received_def split: list.splits)
  then have inv2: "publish_invariant bv bn r2"
    using inv publish_invariant_cong[of r2 r] by simp
  show ?thesis
  proof (cases f)
    case (Some m)
    with t inv2 show ?thesis by (simp add: requests_delete_def)
  next
    case None
    with t inv2 publish_invariant_delete[OF inv2, of aid] show ?thesis
      by (simp add: requests_delete_def)
  qed
qed

lemma named_assets_add:
  "named_assets bn (x\<lparr>assets := assets x @ [b]\<rparr>) =
     named_assets bn x @ (if asset_name b = bn then [b] else [])"
  by (simp add: named_assets_def)

lemma tag_name_add_asset: "map tag_name (add_asset url b xs) = map tag_name xs"
  by (induction xs) auto

lemma filter_tag_length_add_asset:
  "length (filter (\<lambda>x. tag_name x = bv) (add_asset url b xs))
     = length (filter (\<lambda>x. tag_name x = bv) xs)"
  by (induction xs) auto

lemma list_all_named_add_asset:
  assumes "list_all (\<lambda>x. if tag_name x = bv then named_assets bn x = [] else True) xs"
  shows "list_all (\<lambda>x. if tag_name x = bv then length (named_assets bn x) \<le> 1 else True)
           (add_asset url b xs)"
  using assms
proof (induction xs)
  case Nil
  then show ?case by simp
next
  case (Cons y ys)
  have weak: "list_all (\<lambda>x. if tag_name x = bv then length (named_assets bn x) \<le> 1 else True) ys"
    using Cons.prems by (simp add: list_all_iff)
  have y: "tag_name y = bv \<Longrightarrow> named_assets bn y = []" using Cons.prems by simp
  show ?case
  proof (cases "endpoint (upload_url y) = url")
    case True
    with weak y show ?thesis by (simp add: named_assets_add)
  next
    case False
    with Cons y show ?thesis by simp
  qed
qed

text \<open>
  Whatever it answers, an upload of an asset leaves the invariant in place when no
  release with the tag holds an asset of the bundle's name.
\<close>

lemma publish_invariant_requests_post_asset:
  assumes inv: "publish_invariant bv bn r" and vac: "vacant bv bn r"
  shows "publish_invariant bv bn (snd (requests_post_asset url nm data r))"
proof -
  let ?r1 = "received (PostAsset url nm data) r"
  obtain f r2 where t: "take_fault ?r1 = (f, r2)" by (cases "take_fault ?r1")
  then have same: "releases r2 = releases r" "next_id r2 = next_id r"
    by (auto simp: take_fault_def received_def split: list.splits)
  then have inv2: "publish_invariant bv bn r2" and vac2: "vacant bv bn r2"
    using inv vac publish_invariant_cong[of r2 r] vacant_cong[of r2 r] by simp_all
  show ?thesis
  proof (cases f)
    case (Some m)
    with t inv2 show ?thesis by (simp add: requests_post_asset_def)
  next
    case None
    show ?thesis
    proof (cases "list_ex (\<lambda>x. endpoint (upload_url x) = url) (releases r2)")
      case False
      with t None inv2 show ?thesis by (simp add: requests_post_asset_def)
    next
      case True
      let ?b = "\<lparr>asset_name = nm, asset_id = next_id r2, asset_data = data\<rparr>"
      let ?r3 = "r2\<lparr>releases := add_asset url ?b (releases r2), next_id := Suc (next_id r2)\<rparr>"
      have "wf_remote r2" using inv2 by (simp add: publish_invariant_def)
      then have "wf_remote ?r3" using True by (rule wf_remote_post_asset)
      moreover have "length (filter (\<lambda>x. tag_name x = bv) (releases ?r3)) \<le> 1"
        using inv2 by (simp add: publish_invariant_def filter_tag_length_add_asset)
      moreover have "list_all (\<lambda>x. if tag_name x = bv then length (named_assets bn x) \<le> 1 else True)
                       (releases ?r3)"
        using vac2 by (simp add: vacant_def list_all_named_add_asset)
      ultimately have "publish_invariant bv bn ?r3" by (simp add: publish_invariant_def)
      with t None True show ?thesis by (simp add: requests_post_asset_def)
    qed
  qed
qed

text \<open>
  Creating a release with the tag, on a remote that has none: the invariant stays, and
  afterwards no release with the tag holds an asset of the bundle's name.
\<close>

lemma publish_invariant_requests_post_release:
  assumes inv: "publish_invariant bv bn r"
    and none: "filter (\<lambda>x. tag_name x = bv) (releases r) = []"
  shows "publish_invariant bv bn (snd (requests_post_release owner bv nm body pre r))
       \<and> vacant bv bn (snd (requests_post_release owner bv nm body pre r))"
proof -
  let ?r1 = "received (PostRelease owner bv nm body pre) r"
  obtain f r2 where t: "take_fault ?r1 = (f, r2)" by (cases "take_fault ?r1")
  then have same: "releases r2 = releases r" "next_id r2 = next_id r"
    by (auto simp: take_fault_def received_def split: list.splits)
  then have inv2: "publish_invariant bv bn r2"
    using inv publish_invariant_cong[of r2 r] by simp
  have vac2: "vacant bv bn r2"
    using none same by (auto simp: vacant_def list_all_iff filter_empty_conv)
  show ?thesis
  proof (cases f)
    case (Some m)
    with t inv2 vac2 show ?thesis by (simp add: requests_post_release_def)
  next
    case None
    let ?y = "\<lparr>tag_name = bv, upload_url = upload_url_of (next_id r2), assets = [],
              release_id = next_id r2, release_name = nm, release_body = body, prerelease = pre\<rparr>"
    let ?r3 = "r2\<lparr>releases := releases r2 @ [?y], next_id := Suc (next_id r2)\<rparr>"
    have "wf_remote r2" using inv2 by (simp add: publish_invariant_def)
    then have "wf_remote ?r3" by (rule wf_remote_post_release)
    moreover have "length (filter (\<lambda>x. tag_name x = bv) (releases ?r3)) \<le> 1"
      using none same by simp
    moreover have "list_all (\<lambda>x. if tag_name x = bv then named_assets bn x = [] else True)
                     (releases ?r3)"
      using vac2 by (simp add: vacant_def named_assets_def)
    ultimately have "publish_invariant bv bn ?r3 \<and> vacant bv bn ?r3"
      by (auto simp: publish_invariant_def vacant_def list_all_iff)
    with t None show ?thesis by (simp add: requests_post_release_def)
  qed
qed

lemma release_loop_skip:
  "filter (\<lambda>x. tag_name x = bv) xs = [] \<Longrightarrow> release_loop a bv bn xs u w = (Inr u, w)"
  by (induction xs) (auto split: if_splits)

lemma release_loop_unique:
  "filter (\<lambda>x. tag_name x = bv) xs = [x] \<Longrightarrow>
   release_loop a bv bn xs u w =
     (case delete_loop a bv bn (assets x)
             (py_print (''Version '' @ bv @ '' already released.'') w) of
        (Inl e, w') \<Rightarrow> (Inl e, w')
      | (Inr v, w') \<Rightarrow> (Inr (Some (upload_url x)), w'))"
proof (induction xs)
  case Nil
  then show ?case by simp
next
  case (Cons y ys)
  show ?case
  proof (cases "tag_name y = bv")
    case True
    with Cons.prems have yx: "y = x" and rest: "filter (\<lambda>x. tag_name x = bv) ys = []" by simp_all
    show ?thesis
      using True yx by (simp add: release_loop_skip[OF rest] split: prod.splits sum.splits)
  next
    case False
    with Cons show ?thesis by simp
  qed
qed

lemma env_request_on: "env (snd (request_on call w)) = snd (call (env w))"
  by (simp add: request_on_def split: prod.splits)

lemma fst_request_on: "fst (request_on call w) = fst (call (env w))"
  by (simp add: request_on_def split: prod.splits)

lemma requests_delete_204:
  "status_code (fst (requests_delete owner aid tag r)) = 204 \<Longrightarrow>
   releases (snd (requests_delete owner aid tag r)) = map (without_asset aid) (releases r)"
  by (auto simp: requests_delete_def take_fault_def received_def error_response_def ok_response_def
      split: list.splits option.splits if_splits)

text \<open>
  The inner loop on the one release with the tag: the invariant stays, and when the
  loop ends without an error no release with the tag holds an asset of the bundle's
  name any more.
\<close>

lemma delete_loop_invariant:
  assumes inv: "publish_invariant bv bn (env w)"
    and uniq: "filter (\<lambda>x. tag_name x = bv) (releases (env w)) = [x]"
  shows "publish_invariant bv bn (env (snd (delete_loop a bv bn (assets x) w)))
       \<and> (\<forall>v. fst (delete_loop a bv bn (assets x) w) = Inr v \<longrightarrow>
             vacant bv bn (env (snd (delete_loop a bv bn (assets x) w))))"
proof -
  have xmem: "x \<in> set (releases (env w))" and xtag: "tag_name x = bv"
    using filter_singleton_mem[OF uniq] by simp_all
  have only: "y = x" if "y \<in> set (releases (env w))" "tag_name y = bv" for y
  proof -
    from that have "y \<in> set (filter (\<lambda>x. tag_name x = bv) (releases (env w)))" by simp
    then show ?thesis by (simp add: uniq)
  qed
  have le1: "length (named_assets bn x) \<le> 1"
    using inv xmem xtag by (auto simp: publish_invariant_def list_all_iff)
  show ?thesis
  proof (cases "find (\<lambda>b. asset_name b = bn) (assets x)")
    case None
    then have "named_assets bn x = []" by (simp add: named_assets_def find_None_filter)
    then have "vacant bv bn (env w)" using only by (auto simp: vacant_def list_all_iff)
    with None inv show ?thesis by (simp add: delete_loop_find)
  next
    case (Some b)
    then obtain rest where "named_assets bn x = b # rest"
      by (auto simp: named_assets_def dest: find_hd_filter)
    with le1 have named: "named_assets bn x = [b]" by simp
    let ?wp = "py_print (''Deleting '' @ bn @ '' on GitHub.'') w"
    let ?call = "requests_delete (gh_org a) (asset_id b) bv"
    let ?res = "request_on ?call ?wp"
    have inv': "publish_invariant bv bn (env (snd ?res))"
      using inv by (simp add: env_request_on env_py_print publish_invariant_requests_delete)
    have vac': "vacant bv bn (env (snd ?res))" if ok: "status_code (fst ?res) = 204"
    proof -
      have rel: "releases (env (snd ?res)) = map (without_asset (asset_id b)) (releases (env w))"
        using ok requests_delete_204[of "gh_org a" "asset_id b" bv "env w"]
        by (simp add: env_request_on fst_request_on env_py_print)
      have "named_assets bn (without_asset (asset_id b) y) = []"
        if "y \<in> set (releases (env w))" "tag_name y = bv" for y
        using only[OF that] named by (simp add: named_assets_without)
      then have "list_all (\<lambda>x. if tag_name x = bv then named_assets bn x = [] else True)
                   (map (without_asset (asset_id b)) (releases (env w)))"
        by (simp add: list_all_iff)
      then show ?thesis unfolding vacant_def rel .
    qed
    obtain resp w' where r: "?res = (resp, w')" by (cases ?res)
    show ?thesis
      using Some r inv' vac' by (simp add: delete_loop_find)
  qed
qed

lemma create_release_invariant:
  assumes inv: "publish_invariant bv bn (env w)"
    and none: "filter (\<lambda>x. tag_name x = bv) (releases (env w)) = []"
  shows "publish_invariant bv bn (env (snd (create_release a bv w)))
       \<and> vacant bv bn (env (snd (create_release a bv w)))"
proof -
  let ?pre = "release_candidate a \<noteq> None"
  let ?nm = "(case release_candidate a of
                  Some n \<Rightarrow> if n \<noteq> 0 then ''LLVM and Clang '' @ version a @ '' RC'' @ str_int n
                            else ''LLVM and Clang '' @ version a
                | None \<Rightarrow> ''LLVM and Clang '' @ version a)"
  let ?body = "?nm @ '' without realtime, terminfo, and zlib dependencies.''"
  let ?w1 = "py_print (''Releasing '' @ bv @ '' on GitHub.'') w"
  let ?res = "request_on (requests_post_release (gh_org a) bv ?nm ?body ?pre) ?w1"
  have "publish_invariant bv bn (env (snd ?res)) \<and> vacant bv bn (env (snd ?res))"
    using publish_invariant_requests_post_release[OF inv none, of "gh_org a" ?nm ?body ?pre]
    by (simp add: env_request_on env_py_print)
  moreover obtain resp w' where "?res = (resp, w')" by (cases ?res)
  ultimately show ?thesis by (simp add: create_release_def Let_def)
qed

lemma requests_get_200:
  "status_code (fst (requests_get owner r)) = 200 \<Longrightarrow>
   json_releases (fst (requests_get owner r)) = releases r"
  by (auto simp: requests_get_def take_fault_def received_def error_response_def ok_response_def
      split: list.splits option.splits)

lemma releases_requests_get: "releases (snd (requests_get owner r)) = releases r"
  by (auto simp: requests_get_def take_fault_def received_def split: list.splits option.splits)

lemma next_id_requests_get: "next_id (snd (requests_get owner r)) = next_id r"
  by (auto simp: requests_get_def take_fault_def received_def split: list.splits option.splits)

text \<open>
  A run of the upload, whatever the remote answers and wherever the run stops, leaves
  the invariant in place.
\<close>

lemma UploadLlvm_invariant:
  assumes inv: "publish_invariant (GetBundleVersion a) (basename path) (env w)"
  shows "publish_invariant (GetBundleVersion a) (basename path) (env (snd (UploadLlvm a path data w)))"
proof -
  let ?bv = "GetBundleVersion a" and ?bn = "basename path"
  let ?get = "request_on (requests_get (gh_org a)) w"
  obtain resp w1 where g: "?get = (resp, w1)" by (cases ?get)
  have rel1: "releases (env w1) = releases (env w)" and id1: "next_id (env w1) = next_id (env w)"
    using g env_request_on[of "requests_get (gh_org a)" w]
    by (simp_all add: releases_requests_get next_id_requests_get)
  have inv1: "publish_invariant ?bv ?bn (env w1)"
    using inv publish_invariant_cong[OF rel1 id1] by simp
  show ?thesis
  proof (cases "status_code resp = 200")
    case False
    with g inv1 show ?thesis by (simp add: UploadLlvm_def)
  next
    case True
    have listing: "json_releases resp = releases (env w1)"
      using True g requests_get_200[of "gh_org a" "env w"] fst_request_on[of "requests_get (gh_org a)" w]
      by (simp add: rel1)
    let ?loop = "release_loop a ?bv ?bn (releases (env w1)) None w1"
    have upload: "publish_invariant ?bv ?bn
        (env (snd (request_on (requests_post_asset (replace_str ''{?name,label}'' [] url) ?bn data)
                     (py_print (''Uploading '' @ ?bn @ '' on GitHub.'') w3))))"
      if "publish_invariant ?bv ?bn (env w3)" "vacant ?bv ?bn (env w3)" for url w3
      using that by (simp add: env_request_on env_py_print publish_invariant_requests_post_asset)
    have finish: "publish_invariant ?bv ?bn (env (snd
         (case request_on (requests_post_asset (replace_str ''{?name,label}'' [] url) ?bn data)
                 (py_print (''Uploading '' @ ?bn @ '' on GitHub.'') w3) of
            (resp', w4) \<Rightarrow>
              if status_code resp' \<noteq> 201
              then (Inl (SystemExit (''Uploading failed with message: '' @ message resp')), w4)
              else (Inr (), w4))))"
      if "publish_invariant ?bv ?bn (env w3)" "vacant ?bv ?bn (env w3)" for url w3
    proof -
      let ?post = "request_on (requests_post_asset (replace_str ''{?name,label}'' [] url) ?bn data)
                 (py_print (''Uploading '' @ ?bn @ '' on GitHub.'') w3)"
      obtain resp' w4 where p: "?post = (resp', w4)" by (cases ?post)
      have "publish_invariant ?bv ?bn (env w4)" using upload[OF that, of url] unfolding p by simp
      then show ?thesis unfolding p by simp
    qed
    show ?thesis
    proof (cases "filter (\<lambda>x. tag_name x = ?bv) (releases (env w1))")
      case Nil
      have loop: "?loop = (Inr None, w1)" using Nil by (rule release_loop_skip)
      obtain r3 w3 where c: "create_release a ?bv w1 = (r3, w3)" by (cases "create_release a ?bv w1")
      have c3: "publish_invariant ?bv ?bn (env w3)" "vacant ?bv ?bn (env w3)"
        using create_release_invariant[OF inv1 Nil, of a] c by simp_all
      show ?thesis
      proof (cases r3)
        case (Inl e)
        with g True listing loop c c3 show ?thesis by (simp add: UploadLlvm_def Let_def)
      next
        case (Inr url)
        with g True listing loop c finish[OF c3, of url] show ?thesis
          by (simp add: UploadLlvm_def Let_def)
      qed
    next
      case (Cons x xs)
      have "length (filter (\<lambda>x. tag_name x = ?bv) (releases (env w1))) \<le> 1"
        using inv1 by (simp add: publish_invariant_def)
      with Cons have uniq: "filter (\<lambda>x. tag_name x = ?bv) (releases (env w1)) = [x]" by simp
      let ?wv = "py_print (''Version '' @ ?bv @ '' already released.'') w1"
      have invv: "publish_invariant ?bv ?bn (env ?wv)" using inv1 by (simp add: env_py_print)
      have uniqv: "filter (\<lambda>x. tag_name x = ?bv) (releases (env ?wv)) = [x]"
        using uniq by (simp add: env_py_print)
      obtain r2 w2 where d: "delete_loop a ?bv ?bn (assets x) ?wv = (r2, w2)"
        by (cases "delete_loop a ?bv ?bn (assets x) ?wv")
      have d2: "publish_invariant ?bv ?bn (env w2)" and v2: "\<And>v. r2 = Inr v \<Longrightarrow> vacant ?bv ?bn (env w2)"
        using delete_loop_invariant[OF invv uniqv, of a] d by simp_all
      have loop: "?loop = (case r2 of Inl e \<Rightarrow> (Inl e, w2) | Inr v \<Rightarrow> (Inr (Some (upload_url x)), w2))"
        using release_loop_unique[OF uniq, of a ?bn None w1] d by (simp split: sum.splits)
      show ?thesis
      proof (cases r2)
        case (Inl e)
        with g True listing loop d2 show ?thesis by (simp add: UploadLlvm_def Let_def)
      next
        case (Inr v)
        have "x \<in> set (releases (env w1))" using filter_singleton_mem[OF uniq] by simp
        moreover have "wf_remote (env w1)" using inv1 by (simp add: publish_invariant_def)
        ultimately have "upload_url x = upload_url_of (release_id x)"
          by (auto simp: wf_remote_def list_all_iff)
        then have ne: "upload_url x \<noteq> []" by (simp add: upload_url_of_nonempty)
        from g True listing loop Inr ne finish[OF d2 v2[OF Inr], of "upload_url x"] show ?thesis
          by (simp add: UploadLlvm_def Let_def)
      qed
    qed
  qed
qed

lemma attempts_invariant:
  "publish_invariant (GetBundleVersion a) (basename path) (env w) \<Longrightarrow>
   publish_invariant (GetBundleVersion a) (basename path) (env (attempts a path data n w))"
  by (induction n arbitrary: w) (simp_all add: UploadLlvm_invariant)

lemma publish_invariant_empty: "publish_invariant bv bn (env empty_remote)"
  by (simp add: publish_invariant_def wf_remote_def empty_remote_def all_assets_def)

subsection \<open>Publishing twice\<close>

text \<open>
  C1. Publishing twice, with the same arguments and the same bundle, to a remote that
  serves every request and satisfies the invariant of the data model (at most one
  release with the wanted tag, holding at most one asset of the bundle's name): both
  runs succeed; after each there is exactly one release with the tag and it holds
  exactly one asset of the bundle's name (after the second one, with the bundle's
  bytes); and the requests of the second run are the listing, one delete (of the asset
  the first run left) and one upload, in that order. The invariant holds on a remote
  with no release (\<open>publish_invariant_empty\<close>) and after any number of earlier runs,
  failed or not (\<open>attempts_invariant\<close>).
\<close>

theorem publish_twice:
  assumes inv: "publish_invariant (GetBundleVersion a) (basename path) (env w)"
    and nf: "faults (env w) = []"
  shows "\<exists>w1 w2 y1 b1 y2 b2.
      UploadLlvm a path data w = (Inr (), w1)
    \<and> filter (\<lambda>x. tag_name x = GetBundleVersion a) (releases (env w1)) = [y1]
    \<and> named_assets (basename path) y1 = [b1]
    \<and> UploadLlvm a path data w1 = (Inr (), w2)
    \<and> filter (\<lambda>x. tag_name x = GetBundleVersion a) (releases (env w2)) = [y2]
    \<and> named_assets (basename path) y2 = [b2] \<and> asset_data b2 = data
    \<and> requests (env w2) =
        requests (env w1) @
          [GetReleases (gh_org a),
           DeleteAsset (gh_org a) (asset_id b1) (GetBundleVersion a),
           PostAsset (endpoint (upload_url y1)) (basename path) data]"
proof -
  let ?bv = "GetBundleVersion a" and ?bn = "basename path"
  have wf: "wf_remote (env w)"
    and tag1: "length (filter (\<lambda>x. tag_name x = ?bv) (releases (env w))) \<le> 1"
    and name1: "\<forall>x \<in> set (releases (env w)). tag_name x = ?bv \<longrightarrow> length (named_assets ?bn x) \<le> 1"
    using inv by (auto simp: publish_invariant_def list_all_iff)
  have first: "\<exists>w1 y1 b1. UploadLlvm a path data w = (Inr (), w1)
    \<and> wf_remote (env w1) \<and> faults (env w1) = []
    \<and> filter (\<lambda>x. tag_name x = ?bv) (releases (env w1)) = [y1]
    \<and> named_assets ?bn y1 = [b1] \<and> asset_data b1 = data"
  proof (cases "filter (\<lambda>x. tag_name x = ?bv) (releases (env w))")
    case Nil
    then show ?thesis using publish_once_create[OF wf nf, of a path data] by simp
  next
    case (Cons x xs)
    with tag1 have uniq: "filter (\<lambda>x. tag_name x = ?bv) (releases (env w)) = [x]" by simp
    then have "x \<in> set (releases (env w))" "tag_name x = ?bv"
      using filter_singleton_mem[of "\<lambda>x. tag_name x = ?bv" "releases (env w)" x] by simp_all
    with name1 have "length (named_assets ?bn x) \<le> 1" by simp
    from publish_once_unique[OF wf nf uniq this, of data] show ?thesis by blast
  qed
  then obtain w1 y1 b1 where 1: "UploadLlvm a path data w = (Inr (), w1)"
    and wf1: "wf_remote (env w1)" and nf1: "faults (env w1) = []"
    and u1: "filter (\<lambda>x. tag_name x = ?bv) (releases (env w1)) = [y1]"
    and n1: "named_assets ?bn y1 = [b1]"
    by blast
  have "length (named_assets ?bn y1) \<le> 1" using n1 by simp
  from publish_once_unique[OF wf1 nf1 u1 this, of data]
  obtain w2 y2 b2 where "UploadLlvm a path data w1 = (Inr (), w2)"
    "filter (\<lambda>x. tag_name x = ?bv) (releases (env w2)) = [y2]"
    "named_assets ?bn y2 = [b2]" "asset_data b2 = data"
    "requests (env w2) = requests (env w1) @ GetReleases (gh_org a)
          # map (\<lambda>b. DeleteAsset (gh_org a) (asset_id b) ?bv) (named_assets ?bn y1)
          @ [PostAsset (endpoint (upload_url y1)) ?bn data]"
    by blast
  then show ?thesis using 1 u1 n1 by (simp add: n1)
qed

theorem publish_twice_witness:
  "\<exists>w1 w2 y1 b1 y2 b2.
      UploadLlvm example_args example_path ''NEW'' published_remote = (Inr (), w1)
    \<and> filter (\<lambda>x. tag_name x = GetBundleVersion example_args) (releases (env w1)) = [y1]
    \<and> named_assets (basename example_path) y1 = [b1]
    \<and> UploadLlvm example_args example_path ''NEW'' w1 = (Inr (), w2)
    \<and> filter (\<lambda>x. tag_name x = GetBundleVersion example_args) (releases (env w2)) = [y2]
    \<and> named_assets (basename example_path) y2 = [b2] \<and> asset_data b2 = ''NEW''
    \<and> requests (env w2) =
        requests (env w1) @
          [GetReleases (gh_org example_args),
           DeleteAsset (gh_org example_args) (asset_id b1) (GetBundleVersion example_args),
           PostAsset (endpoint (upload_url y1)) (basename example_path) ''NEW'']"
proof (rule publish_twice)
  show "publish_invariant (GetBundleVersion example_args) (basename example_path)
          (env published_remote)"
    by code_simp
  show "faults (env published_remote) = []" by code_simp
qed

subsection \<open>The release that is created\<close>

text \<open>
  What the created release looks like, on a well-formed remote that serves every
  request and has no release with the tag: \<open>prerelease\<close> tells whether a candidate number
  was given at all, while the name carries \<^verbatim>\<open>RC<N>\<close> only for a number other than 0.
\<close>

lemma create_release_candidate:
  assumes "wf_remote (env w)" and "faults (env w) = []"
    and "filter (\<lambda>x. tag_name x = GetBundleVersion a) (releases (env w)) = []"
  shows "\<exists>w' y. UploadLlvm a path data w = (Inr (), w')
    \<and> releases (env w') = releases (env w) @ [y]
    \<and> prerelease y = (release_candidate a \<noteq> None)
    \<and> (\<forall>n. release_candidate a = Some n \<longrightarrow> n \<noteq> 0 \<longrightarrow>
           release_name y = ''LLVM and Clang '' @ version a @ '' RC'' @ str_int n)
    \<and> (release_candidate a = None \<or> release_candidate a = Some 0 \<longrightarrow>
           release_name y = ''LLVM and Clang '' @ version a)"
proof -
  obtain w' y where "UploadLlvm a path data w = (Inr (), w')"
    "releases (env w') = releases (env w) @ [y]"
    "prerelease y = (release_candidate a \<noteq> None)"
    "release_name y =
         (case release_candidate a of
            Some n \<Rightarrow> if n \<noteq> 0 then ''LLVM and Clang '' @ version a @ '' RC'' @ str_int n
                      else ''LLVM and Clang '' @ version a
          | None \<Rightarrow> ''LLVM and Clang '' @ version a)"
    using UploadLlvm_create[OF assms, of path data] by blast
  then show ?thesis by auto
qed

text \<open>
  C4, at the input where the code departs from it. With the candidate number 0
  (\<^verbatim>\<open>--release-candidate 0\<close>) and no release on the remote, the release that is created
  has \<open>prerelease\<close> true, but its name is \<^verbatim>\<open>LLVM and Clang 18.1.0\<close>, with no \<^verbatim>\<open>RC0\<close>, and
  its tag is \<^verbatim>\<open>18.1.0\<close>: \<open>prerelease\<close> is computed with \<^verbatim>\<open>is not None\<close>, the name and the tag
  with the truth test, which 0 fails.
\<close>

theorem UploadLlvm_release_candidate_zero:
  "map (\<lambda>y. (tag_name y, release_name y, prerelease y))
     (releases (env (snd (UploadLlvm (example_args\<lparr>release_candidate := Some 0\<rparr>) example_path
                            ''DATA'' empty_remote))))
   = [(''18.1.0'', ''LLVM and Clang 18.1.0'', True)]"
  by code_simp


section \<open>Main and the number of attempts\<close>

lemma locate_count_print [simp]: "locate_count (py_print s w) = locate_count w"
  by (simp add: locate_count_def py_print_def)
















end
